theory Spec2Isabelle
  imports Complex_Main "HOL-Library.Word"
begin

section \<open>Streaming classification orchestrator of lion-mobile\<close>

text \<open>
  The definitions follow the streaming screen (\<open>App\<close> with \<open>streamingConfig\<close>) and, for the
  single-request cutoff, \<open>processAudio\<close> of \<open>App.tsx\<close>. JavaScript numbers are taken as
  exact: audio samples and the RMS volume are \<open>real\<close>, percentages are \<open>rat\<close>, counters
  and sizes are \<open>nat\<close>, clock readings are \<open>int\<close> milliseconds. React state variables
  and refs are fields of one session record; a setter stores the new value in its field and the
  next read of that field sees it.
\<close>

subsection \<open>Score parser: the two regular expressions and \<open>parseFloat\<close>\<close>

text \<open>\<open>[0-9]\<close> and \<open>\d\<close>.\<close>

definition isDigit :: "char \<Rightarrow> bool" where
  "isDigit c = (c \<in> set ''0123456789'')"

text \<open>
  The \<open>i\<close> flag compares canonicalised characters; for the ASCII letters of the two labels
  canonicalisation is upper-casing of \<open>a\<close> to \<open>z\<close>.
\<close>

definition canonicalize :: "char \<Rightarrow> char" where
  "canonicalize c =
     (case map_of (zip ''abcdefghijklmnopqrstuvwxyz'' ''ABCDEFGHIJKLMNOPQRSTUVWXYZ'') c of
        Some u \<Rightarrow> u
      | None \<Rightarrow> c)"

text \<open>
  A regular expression of the shape used in the source is a sequence of tokens: a character
  class with a greedy quantifier, or the opening or closing parenthesis of capture group 1.
\<close>

datatype quant = Once | Optional | ZeroOrMore | OneOrMore

datatype tok = Atom "char \<Rightarrow> bool" quant | GroupOpen | GroupClose

text \<open>
  Backtracking match of a token sequence at the start of \<open>s\<close>: every quantifier first takes
  as much as it can and gives characters back when the rest of the pattern fails. The result
  is the text of capture group 1; \<open>g\<close> says whether the group is open and \<open>cap\<close> holds
  its characters so far, last one first.
\<close>

fun backtrack :: "tok list \<Rightarrow> string \<Rightarrow> bool \<Rightarrow> string \<Rightarrow> string option" where
  "backtrack [] s g cap = Some (rev cap)"
| "backtrack (GroupOpen # ts) s g cap = backtrack ts s True []"
| "backtrack (GroupClose # ts) s g cap = backtrack ts s False cap"
| "backtrack (Atom p Once # ts) s g cap =
     (case s of
        [] \<Rightarrow> None
      | c # r \<Rightarrow> if p c then backtrack ts r g (if g then c # cap else cap) else None)"
| "backtrack (Atom p Optional # ts) s g cap =
     (case s of
        [] \<Rightarrow> backtrack ts s g cap
      | c # r \<Rightarrow>
          if p c then
            (case backtrack ts r g (if g then c # cap else cap) of
               Some m \<Rightarrow> Some m
             | None \<Rightarrow> backtrack ts s g cap)
          else backtrack ts s g cap)"
| "backtrack (Atom p ZeroOrMore # ts) s g cap =
     (case s of
        [] \<Rightarrow> backtrack ts s g cap
      | c # r \<Rightarrow>
          if p c then
            (case backtrack (Atom p ZeroOrMore # ts) r g (if g then c # cap else cap) of
               Some m \<Rightarrow> Some m
             | None \<Rightarrow> backtrack ts s g cap)
          else backtrack ts s g cap)"
| "backtrack (Atom p OneOrMore # ts) s g cap =
     (case s of
        [] \<Rightarrow> None
      | c # r \<Rightarrow>
          if p c then backtrack (Atom p ZeroOrMore # ts) r g (if g then c # cap else cap)
          else None)"

text \<open>
  \<open>String.prototype.match\<close> with a regular expression without the \<open>g\<close> flag: the
  start positions are tried from left to right and the first one that matches wins; the
  result is capture group 1 of that match, \<open>None\<close> for \<open>null\<close>.
\<close>

fun regexMatch :: "tok list \<Rightarrow> string \<Rightarrow> string option" where
  "regexMatch ts [] = backtrack ts [] False []"
| "regexMatch ts (c # r) =
     (case backtrack ts (c # r) False [] of
        Some m \<Rightarrow> Some m
      | None \<Rightarrow> regexMatch ts r)"

text \<open>\<open>/label[^0-9]*(\d+\.?\d*)%/i\<close> for a label of letters and spaces.\<close>

definition percentRegex :: "string \<Rightarrow> tok list" where
  "percentRegex label =
     map (\<lambda>l. Atom (\<lambda>c. canonicalize c = canonicalize l) Once) label @
     [Atom (\<lambda>c. \<not> isDigit c) ZeroOrMore,
      GroupOpen,
      Atom isDigit OneOrMore,
      Atom (\<lambda>c. c = CHR ''.'') Optional,
      Atom isDigit ZeroOrMore,
      GroupClose,
      Atom (\<lambda>c. c = CHR ''%'') Once]"

definition digitValue :: "char \<Rightarrow> nat" where
  "digitValue c = of_char c - 48"

definition digitsValue :: "string \<Rightarrow> nat" where
  "digitsValue ds = foldl (\<lambda>acc c. 10 * acc + digitValue c) 0 ds"

text \<open>
  \<open>parseFloat\<close> on the text of capture group 1, which is a run of digits, optionally
  followed by a dot and a run of digits: the value of that decimal numeral. Signs, exponents
  and \<open>NaN\<close> cannot occur in a capture and are not covered.
\<close>

definition parseFloat :: "string \<Rightarrow> rat" where
  "parseFloat s =
     (let ip = takeWhile isDigit s;
          fp = (case dropWhile isDigit s of
                  [] \<Rightarrow> []
                | c # r \<Rightarrow> if c = CHR ''.'' then takeWhile isDigit r else [])
      in of_nat (digitsValue ip) + of_nat (digitsValue fp) / 10 ^ length fp)"

text \<open>The first four statements of \<open>handleStreamingResult\<close> (and of the result branch of
  \<open>processAudio\<close>): the pair \<open>(aiPercent, realPercent)\<close>.\<close>

definition parseScores :: "string \<Rightarrow> rat \<times> rat" where
  "parseScores result =
     (let aiMatch = regexMatch (percentRegex ''AI Generated'') result;
          realMatch = regexMatch (percentRegex ''Real Voice'') result;
          aiPercent = (case aiMatch of Some m \<Rightarrow> parseFloat m | None \<Rightarrow> 0);
          realPercent = (case realMatch of Some m \<Rightarrow> parseFloat m | None \<Rightarrow> 0)
      in (aiPercent, realPercent))"

text \<open>
  A match of \<open>label<non-digit>*<number>%\<close> at the start of a text, in the words of the
  specification: the text begins with the label in any letter case, then characters that
  are not digits, then a number, made of digits, possibly a dot and possibly more digits,
  then a percent sign. \<open>num\<close> is the text of the number.
\<close>

definition labelledPercent :: "string \<Rightarrow> string \<Rightarrow> string \<Rightarrow> bool" where
  "labelledPercent label s num =
     (\<exists>lab gap ip dot fp rest.
        s = lab @ gap @ ip @ dot @ fp @ ''%'' @ rest \<and>
        map canonicalize lab = map canonicalize label \<and>
        (\<forall>c\<in>set gap. \<not> isDigit c) \<and>
        ip \<noteq> [] \<and> (\<forall>c\<in>set ip. isDigit c) \<and>
        (dot = [] \<or> dot = ''.'') \<and>
        (\<forall>c\<in>set fp. isDigit c) \<and>
        num = ip @ dot @ fp)"

subsection \<open>Session state\<close>

record DetectionResult =
  isAI :: bool
  aiPercent :: rat
  realPercent :: rat
  timestamp :: int
  chunkId :: nat

text \<open>What the detection branch of \<open>handleStreamingResult\<close> emits: the notification of a
  new detection event, the log line of a continuing one, the log line of its end.\<close>

datatype edge = RisingEdge nat | Continuing nat | FallingEdge nat

datatype status =
  NoStatus | Waiting | Buffering | TooQuiet | Processing nat | Verdict nat bool | Stopped

type_synonym byte = "8 word"

text \<open>A dispatched chunk whose \<open>processAudioChunk\<close> promise has not settled yet: its id,
  the window \<open>chunkData\<close> cut from the buffer and the WAV file made of it.\<close>

record job =
  jobChunkId :: nat
  chunkWindow :: "real list"
  wavBlob :: "byte list"

record session =
  isRecording :: bool
  isStreaming :: bool
  timerSet :: bool
  audioBuffer :: "real list"
  lastProcessTime :: int
  chunkCount :: nat
  streamingStatus :: status
  lastResult :: "DetectionResult option"
  history :: "DetectionResult list"
  detectionEvent :: bool
  consecutiveDetections :: nat
  emitted :: "edge list"
  inFlight :: "job list"

record StreamingConfig =
  RATE :: nat
  CHANNELS :: nat
  CHUNK_DURATION :: real
  STREAM_INTERVAL :: int
  BUFFER_DURATION :: real
  MIN_VOLUME_THRESHOLD :: real

definition streamingConfig :: StreamingConfig where
  "streamingConfig =
     \<lparr>RATE = 22050, CHANNELS = 1, CHUNK_DURATION = 4, STREAM_INTERVAL = 500,
      BUFFER_DURATION = 8, MIN_VOLUME_THRESHOLD = 1 / 10000\<rparr>"

text \<open>The component's state before the first session.\<close>

definition initialSession :: session where
  "initialSession =
     \<lparr>isRecording = False, isStreaming = False, timerSet = False, audioBuffer = [],
      lastProcessTime = 0, chunkCount = 0, streamingStatus = NoStatus, lastResult = None,
      history = [], detectionEvent = False, consecutiveDetections = 0, emitted = [],
      inFlight = []\<rparr>"

subsection \<open>Result handling\<close>

text \<open>\<open>handleStreamingResult(result, chunkId)\<close>; \<open>now\<close> is the value of \<open>new Date()\<close>.\<close>

definition handleStreamingResult :: "string \<Rightarrow> nat \<Rightarrow> int \<Rightarrow> session \<Rightarrow> session" where
  "handleStreamingResult result cid now s =
     (let ai = fst (parseScores result);
          re = snd (parseScores result);
          detected = (ai > 30);
          detectionResult =
            \<lparr>isAI = detected, aiPercent = ai, realPercent = re, timestamp = now, chunkId = cid\<rparr>;
          s1 = s\<lparr>lastResult := Some detectionResult,
                 history := take 20 (detectionResult # history s)\<rparr>;
          s2 =
            (if detected then
               (let s' = s1\<lparr>consecutiveDetections := consecutiveDetections s1 + 1\<rparr>
                in if \<not> detectionEvent s'
                   then s'\<lparr>detectionEvent := True, emitted := emitted s' @ [RisingEdge cid]\<rparr>
                   else s'\<lparr>emitted := emitted s' @ [Continuing (consecutiveDetections s')]\<rparr>)
             else if detectionEvent s1 \<and> consecutiveDetections s1 > 0
               then s1\<lparr>detectionEvent := False, consecutiveDetections := 0,
                       emitted := emitted s1 @ [FallingEdge (consecutiveDetections s1)]\<rparr>
               else s1)
      in s2\<lparr>streamingStatus := Verdict cid detected\<rparr>)"

text \<open>The result branch of \<open>processAudio\<close> in \<open>App.tsx\<close>, the single-request flow:
  the verdict it stores, with its own cutoff, and the ledger of the last ten results. Its
  \<open>DetectionResult\<close> has no chunk id.\<close>

record ClipResult =
  clipIsAI :: bool
  clipAiPercent :: rat
  clipRealPercent :: rat
  clipTimestamp :: int

definition processAudioResult ::
  "string \<Rightarrow> int \<Rightarrow> ClipResult list \<Rightarrow> ClipResult \<times> ClipResult list" where
  "processAudioResult result now prev =
     (let ai = fst (parseScores result);
          re = snd (parseScores result);
          detected = (ai > 50);
          detectionResult =
            \<lparr>clipIsAI = detected, clipAiPercent = ai, clipRealPercent = re,
             clipTimestamp = now\<rparr>
      in (detectionResult, take 10 (detectionResult # prev)))"

subsection \<open>Volume gate\<close>

definition calculateRMS :: "real list \<Rightarrow> real" where
  "calculateRMS audioData =
     (if length audioData = 0 then 0
      else sqrt (foldl (\<lambda>acc val. acc + val * val) 0 audioData / real (length audioData)))"

subsection \<open>WAV encoder\<close>

text \<open>
  The \<open>DataView\<close> setters overwrite bytes of the buffer at an offset. \<open>setUint32\<close> and
  \<open>setUint16\<close> store their argument modulo \<open>2 ^ 32\<close> and \<open>2 ^ 16\<close>, low byte first
  (the \<open>littleEndian\<close> argument is \<open>true\<close> at every call). \<open>setInt16\<close> drops the
  fraction of its argument (towards zero) and stores the integer modulo \<open>2 ^ 16\<close>.
\<close>

definition writeAt :: "nat \<Rightarrow> byte list \<Rightarrow> byte list \<Rightarrow> byte list" where
  "writeAt offset bs buffer = take offset buffer @ bs @ drop (offset + length bs) buffer"

definition uint16LE :: "nat \<Rightarrow> byte list" where
  "uint16LE v = [of_nat (v mod 65536 mod 256), of_nat (v mod 65536 div 256)]"

definition uint32LE :: "nat \<Rightarrow> byte list" where
  "uint32LE v =
     [of_nat (v mod 4294967296 mod 256),
      of_nat (v mod 4294967296 div 256 mod 256),
      of_nat (v mod 4294967296 div 65536 mod 256),
      of_nat (v mod 4294967296 div 16777216)]"

definition toInteger :: "real \<Rightarrow> int" where
  "toInteger x = (if x < 0 then \<lceil>x\<rceil> else \<lfloor>x\<rfloor>)"

definition int16LE :: "real \<Rightarrow> byte list" where
  "int16LE x = uint16LE (nat (toInteger x mod 65536))"

definition setUint32 :: "nat \<Rightarrow> nat \<Rightarrow> byte list \<Rightarrow> byte list" where
  "setUint32 offset v buffer = writeAt offset (uint32LE v) buffer"

definition setUint16 :: "nat \<Rightarrow> nat \<Rightarrow> byte list \<Rightarrow> byte list" where
  "setUint16 offset v buffer = writeAt offset (uint16LE v) buffer"

definition setInt16 :: "nat \<Rightarrow> real \<Rightarrow> byte list \<Rightarrow> byte list" where
  "setInt16 offset x buffer = writeAt offset (int16LE x) buffer"

definition writeString :: "nat \<Rightarrow> string \<Rightarrow> byte list \<Rightarrow> byte list" where
  "writeString offset str buffer = writeAt offset (map of_char str) buffer"

text \<open>The sample loop of \<open>createWavBlob\<close>: the samples still to be written and the
  running \<open>offset\<close>.\<close>

fun writeSamples :: "real list \<Rightarrow> nat \<Rightarrow> byte list \<Rightarrow> byte list" where
  "writeSamples [] offset buffer = buffer"
| "writeSamples (x # xs) offset buffer =
     (let sample = max (- 1) (min 1 x)
      in writeSamples xs (offset + 2) (setInt16 offset (sample * 32767) buffer))"

definition createWavBlob :: "real list \<Rightarrow> nat \<Rightarrow> byte list" where
  "createWavBlob audioData sampleRate =
     (let len = length audioData;
          b0 = replicate (44 + len * 2) 0;
          b1 = writeString 0 ''RIFF'' b0;
          b2 = setUint32 4 (36 + len * 2) b1;
          b3 = writeString 8 ''WAVE'' b2;
          b4 = writeString 12 ''fmt '' b3;
          b5 = setUint32 16 16 b4;
          b6 = setUint16 20 1 b5;
          b7 = setUint16 22 1 b6;
          b8 = setUint32 24 sampleRate b7;
          b9 = setUint32 28 (sampleRate * 2) b8;
          b10 = setUint16 32 2 b9;
          b11 = setUint16 34 16 b10;
          b12 = writeString 36 ''data'' b11;
          b13 = setUint32 40 (len * 2) b12
      in writeSamples audioData 44 b13)"









subsection \<open>Chunk scheduler\<close>

text \<open>\<open>array.slice(-n)\<close>: the last \<open>n\<close> elements, the whole array when \<open>n\<close> is 0 or
  exceeds the length.\<close>

definition sliceFromEnd :: "nat \<Rightarrow> 'a list \<Rightarrow> 'a list" where
  "sliceFromEnd n xs = (if n = 0 then xs else drop (length xs - n) xs)"

text \<open>
  One timer tick: \<open>processStreamingChunk\<close> up to the call of \<open>processAudioChunk\<close>, with
  \<open>now\<close> the value of \<open>Date.now()\<close>. A tick that passes every gate leaves a new job in
  \<open>inFlight\<close>; the job stays there until its round trip completes. The \<open>catch\<close> block
  of \<open>processStreamingChunk\<close> is not reached: \<open>createWavBlob\<close> does not throw and
  \<open>processAudioChunk\<close> catches its own exceptions.
\<close>

definition processStreamingChunk :: "int \<Rightarrow> session \<Rightarrow> session" where
  "processStreamingChunk now s =
     (if \<not> isStreaming s \<or> length (audioBuffer s) = 0 then s
      else if now - lastProcessTime s < STREAM_INTERVAL streamingConfig then s
      else
        (let s1 = s\<lparr>lastProcessTime := now\<rparr>;
             bufferCopy = audioBuffer s1;
             bufferDuration = real (length bufferCopy) / real (RATE streamingConfig)
         in if bufferDuration < CHUNK_DURATION streamingConfig
            then s1\<lparr>streamingStatus := Buffering\<rparr>
            else
              (let volume = calculateRMS bufferCopy
               in if volume < MIN_VOLUME_THRESHOLD streamingConfig
                  then s1\<lparr>streamingStatus := TooQuiet\<rparr>
                  else
                    (let samplesNeeded =
                           nat \<lfloor>CHUNK_DURATION streamingConfig * real (RATE streamingConfig)\<rfloor>;
                         chunkData = sliceFromEnd samplesNeeded bufferCopy;
                         currentChunkId = chunkCount s1 + 1
                     in s1\<lparr>chunkCount := currentChunkId,
                           streamingStatus := Processing currentChunkId,
                           inFlight := inFlight s1 @
                             [\<lparr>jobChunkId = currentChunkId, chunkWindow = chunkData,
                               wavBlob = createWavBlob chunkData (RATE streamingConfig)\<rparr>]\<rparr>))))"

subsection \<open>Inference client\<close>

text \<open>The values \<open>JSON.parse\<close> returns.\<close>

datatype json =
  JNull | JBool bool | JNum rat | JStr string | JArr "json list" | JObj "(string \<times> json) list"

text \<open>The test \<open>if (result)\<close>: \<open>null\<close>, \<open>false\<close>, \<open>0\<close> and the empty string are
  falsy, every array and object is truthy.\<close>

fun truthy :: "json \<Rightarrow> bool" where
  "truthy JNull = False"
| "truthy (JBool b) = b"
| "truthy (JNum n) = (n \<noteq> 0)"
| "truthy (JStr str) = (str \<noteq> [])"
| "truthy (JArr xs) = True"
| "truthy (JObj kvs) = True"

text \<open>\<open>text.split('\n')\<close>.\<close>

fun splitLines :: "string \<Rightarrow> string list" where
  "splitLines [] = [[]]"
| "splitLines (c # cs) =
     (if c = CHR 0x0A then [] # splitLines cs
      else (case splitLines cs of
              [] \<Rightarrow> [[c]]
            | l # ls \<Rightarrow> (c # l) # ls))"

definition startsWith :: "string \<Rightarrow> string \<Rightarrow> bool" where
  "startsWith line pre = (take (length pre) line = pre)"

text \<open>
  The inner loop over the lines of one poll response. \<open>parse\<close> is \<open>JSON.parse\<close>, with
  \<open>None\<close> where it throws; \<open>result\<close> is the variable of that name, which the loop assigns
  at the first line whose payload is a non-empty array, and then leaves (\<open>break\<close>).
\<close>

fun scanLines :: "(string \<Rightarrow> json option) \<Rightarrow> string list \<Rightarrow> json \<Rightarrow> json" where
  "scanLines parse [] result = result"
| "scanLines parse (line # rest) result =
     (if startsWith line ''data: '' then
        (case parse (drop 6 line) of
           None \<Rightarrow> scanLines parse rest result
         | Some (JArr (x # xs)) \<Rightarrow> x
         | Some other \<Rightarrow> scanLines parse rest result)
      else scanLines parse rest result)"

datatype chunkError = WriteFailed | UploadFailed | SubmitFailed | PollFailed | ResultNotString

text \<open>
  The polling loop \<open>for (let i = 0; i < 10; i++)\<close>. \<open>poll i\<close> is the text of the response
  to the fetch of attempt \<open>i\<close>, \<open>None\<close> when the fetch or the reading of its body rejects.
  The result is the final value of \<open>result\<close> (or the error), the number of fetches made and
  the milliseconds spent in the delays between attempts.
\<close>

function pollLoop ::
  "(string \<Rightarrow> json option) \<Rightarrow> (nat \<Rightarrow> string option) \<Rightarrow> nat \<Rightarrow> json \<Rightarrow> nat \<Rightarrow>
   (chunkError + json) \<times> nat \<times> nat" where
  "pollLoop parse poll i result waited =
     (if i < 10 then
        (case poll i of
           None \<Rightarrow> (Inl PollFailed, i + 1, waited)
         | Some text \<Rightarrow>
             (let result' = scanLines parse (splitLines text) result
              in if truthy result' then (Inr result', i + 1, waited)
                 else pollLoop parse poll (i + 1) result' (waited + 200)))
      else (Inr result, i, waited))"
  by pat_completeness auto
termination
  by (relation "measure (\<lambda>(parse, poll, i, result, waited). 10 - i)") auto

declare pollLoop.simps [simp del]

text \<open>
  What the remote side does during one round trip: whether the chunk file is written,
  whether the upload resolves with an \<open>ok\<close> response whose body is JSON, whether the submit
  resolves with a JSON body that is not \<open>null\<close>, and the poll responses.
\<close>

record network =
  writeOk :: bool
  uploadOk :: bool
  submitOk :: bool
  pollText :: "nat \<Rightarrow> string option"

text \<open>
  One round trip of \<open>processAudioChunk\<close>: the calls it makes and how it ends. \<open>Inr (Some r)\<close>:
  \<open>handleStreamingResult\<close> runs on the string \<open>r\<close>; \<open>Inr None\<close>: the final \<open>result\<close> is
  falsy and nothing is handled; \<open>Inl e\<close>: an exception reaches the \<open>catch\<close> block, which
  logs it (\<open>ResultNotString\<close>: \<open>result.match\<close> is not a function).
\<close>

record roundTrip =
  uploadCalls :: nat
  pollCalls :: nat
  delayMs :: nat
  outcome :: "chunkError + string option"

definition processAudioChunk :: "(string \<Rightarrow> json option) \<Rightarrow> network \<Rightarrow> roundTrip" where
  "processAudioChunk parse net =
     (if \<not> writeOk net
        then \<lparr>uploadCalls = 0, pollCalls = 0, delayMs = 0, outcome = Inl WriteFailed\<rparr>
      else if \<not> uploadOk net
        then \<lparr>uploadCalls = 1, pollCalls = 0, delayMs = 0, outcome = Inl UploadFailed\<rparr>
      else if \<not> submitOk net
        then \<lparr>uploadCalls = 1, pollCalls = 0, delayMs = 0, outcome = Inl SubmitFailed\<rparr>
      else
        (case pollLoop parse (pollText net) 0 JNull 0 of
           (Inl e, polls, waited) \<Rightarrow>
             \<lparr>uploadCalls = 1, pollCalls = polls, delayMs = waited, outcome = Inl e\<rparr>
         | (Inr result, polls, waited) \<Rightarrow>
             \<lparr>uploadCalls = 1, pollCalls = polls, delayMs = waited,
              outcome =
                (if truthy result then
                   (case result of
                      JStr r \<Rightarrow> Inr (Some r)
                    | other \<Rightarrow> Inl ResultNotString)
                 else Inr None)\<rparr>))"

fun removeJob :: "nat \<Rightarrow> job list \<Rightarrow> job list" where
  "removeJob cid [] = []"
| "removeJob cid (j # js) = (if jobChunkId j = cid then js else j # removeJob cid js)"

text \<open>
  The round trip of the in-flight chunk \<open>cid\<close> completes at clock reading \<open>now\<close>, the remote
  side having behaved as \<open>net\<close>: the job leaves \<open>inFlight\<close> and its result, if there is one,
  is handled.
\<close>

definition completeChunk ::
  "(string \<Rightarrow> json option) \<Rightarrow> network \<Rightarrow> nat \<Rightarrow> int \<Rightarrow> session \<Rightarrow> session" where
  "completeChunk parse net cid now s =
     (if cid \<in> set (map jobChunkId (inFlight s)) then
        (let s1 = s\<lparr>inFlight := removeJob cid (inFlight s)\<rparr>
         in case outcome (processAudioChunk parse net) of
              Inr (Some r) \<Rightarrow> handleStreamingResult r cid now s1
            | Inr None \<Rightarrow> s1
            | Inl e \<Rightarrow> s1)
      else s)"

subsection \<open>Session start and stop\<close>

text \<open>\<open>captureOk\<close>: the capture collaborator starts without throwing.\<close>

definition startRecording :: "bool \<Rightarrow> session \<Rightarrow> session" where
  "startRecording captureOk s =
     (let s1 = s\<lparr>audioBuffer := [], chunkCount := 0, consecutiveDetections := 0,
                 detectionEvent := False, isStreaming := True\<rparr>
      in if captureOk
         then s1\<lparr>isRecording := True, streamingStatus := Waiting, timerSet := True\<rparr>
         else s1\<lparr>isRecording := False, isStreaming := False\<rparr>)"

text \<open>\<open>releaseOk\<close>: the capture collaborator stops without throwing.\<close>

definition stopRecording :: "bool \<Rightarrow> session \<Rightarrow> session" where
  "stopRecording releaseOk s =
     (if \<not> isRecording s then s
      else
        (let s1 = s\<lparr>isStreaming := False, isRecording := False, timerSet := False\<rparr>
         in if releaseOk then s1\<lparr>streamingStatus := Stopped\<rparr> else s1))"

text \<open>The timer callback: it runs \<open>processStreamingChunk\<close> while the interval is set.\<close>

definition timerTick :: "int \<Rightarrow> session \<Rightarrow> session" where
  "timerTick now s = (if timerSet s then processStreamingChunk now s else s)"

subsection \<open>Runs of results\<close>

text \<open>The \<open>DetectionResult\<close> that \<open>handleStreamingResult\<close> builds from a result text.\<close>

definition detectionResultOf :: "string \<Rightarrow> nat \<Rightarrow> int \<Rightarrow> DetectionResult" where
  "detectionResultOf result cid now =
     \<lparr>isAI = (fst (parseScores result) > 30), aiPercent = fst (parseScores result),
      realPercent = snd (parseScores result), timestamp = now, chunkId = cid\<rparr>"

text \<open>Results handled one after the other, each given as result text, chunk id and clock.\<close>

fun handleAll :: "(string \<times> nat \<times> int) list \<Rightarrow> session \<Rightarrow> session" where
  "handleAll [] s = s"
| "handleAll ((result, cid, now) # rest) s = handleAll rest (handleStreamingResult result cid now s)"

subsection \<open>Result selection, in the words of the specification and of the code\<close>

text \<open>
  The selection within one response as the specification words it: the first line with the
  prefix \<open>data: \<close> whose payload is an array whose first element is a non-empty string.
\<close>

fun specSelected :: "(string \<Rightarrow> json option) \<Rightarrow> string list \<Rightarrow> string option" where
  "specSelected parse [] = None"
| "specSelected parse (line # rest) =
     (if startsWith line ''data: '' then
        (case parse (drop 6 line) of
           Some (JArr (JStr r # xs)) \<Rightarrow> if r \<noteq> [] then Some r else specSelected parse rest
         | other \<Rightarrow> specSelected parse rest)
      else specSelected parse rest)"

text \<open>The first element of the payload of a line, for a line with the prefix \<open>data: \<close> whose
  payload parses to a non-empty array; \<open>None\<close> for every other line.\<close>

definition arrayHead :: "(string \<Rightarrow> json option) \<Rightarrow> string \<Rightarrow> json option" where
  "arrayHead parse line =
     (if startsWith line ''data: '' then
        (case parse (drop 6 line) of
           Some (JArr (x # xs)) \<Rightarrow> Some x
         | other \<Rightarrow> None)
      else None)"

text \<open>What one poll response yields when \<open>result\<close> is still \<open>null\<close>.\<close>

definition scanResponse :: "(string \<Rightarrow> json option) \<Rightarrow> string \<Rightarrow> json" where
  "scanResponse parse text = scanLines parse (splitLines text) JNull"

subsection \<open>Remote sides and payloads used in the examples\<close>

text \<open>A remote side that accepts the upload and the submit and answers every poll with the
  same text.\<close>

definition steadyNetwork :: "string \<Rightarrow> network" where
  "steadyNetwork text =
     \<lparr>writeOk = True, uploadOk = True, submitOk = True, pollText = (\<lambda>i. Some text)\<rparr>"

text \<open>A remote side that accepts the upload and the submit, answers the first \<open>k\<close> polls
  with a heartbeat event and every later poll with the given text.\<close>

definition delayedNetwork :: "nat \<Rightarrow> string \<Rightarrow> network" where
  "delayedNetwork k text =
     \<lparr>writeOk = True, uploadOk = True, submitOk = True,
      pollText = (\<lambda>i. if i < k then Some ''event: heartbeat\<newline>data: null'' else Some text)\<rparr>"

text \<open>The result text of the specification's example, and \<open>JSON.parse\<close> on the payloads
  that occur in the examples: the four texts of the table, and the malformed payload \<open>{\<close>,
  which it rejects as it rejects every text outside the table. The examples apply it to no
  other text.\<close>

definition exampleResult :: string where
  "exampleResult = ''AI Generated: 82.5% | Real Voice: 17.5%''"

definition parseExamples :: "string \<Rightarrow> json option" where
  "parseExamples =
     map_of
       [(''[\"AI Generated: 82.5% | Real Voice: 17.5%\"]'', JArr [JStr exampleResult]),
        (''[\"\"]'', JArr [JStr []]),
        (''[5]'', JArr [JNum 5]),
        (''null'', JNull)]"

text \<open>A session that has just started and whose buffer the capture side has filled with
  \<open>n\<close> samples of amplitude \<open>a\<close>. Appending to the buffer is the capture
  collaborator's part; the recording callback of the source only holds a comment in its
  place.\<close>

definition filledSession :: "nat \<Rightarrow> real \<Rightarrow> session" where
  "filledSession n a = (startRecording True initialSession)\<lparr>audioBuffer := replicate n a\<rparr>"

section \<open>Properties\<close>

subsection \<open>Evaluating the score parser\<close>

lemmas parser_defs =
  parseScores_def percentRegex_def isDigit_def canonicalize_def parseFloat_def
  digitsValue_def digitValue_def

lemma score_none: "parseScores ''x'' = (0, 0)" and score_none': "parseScores ''y'' = (0, 0)"
  by (simp_all add: parser_defs)


lemma score30: "parseScores ''AI Generated: 30%'' = (30, 0)"
  by (simp add: parser_defs)

lemma score40: "parseScores ''AI Generated: 40%'' = (40, 0)"
  by (simp add: parser_defs)

lemma score50: "parseScores ''AI Generated: 50%'' = (50, 0)"
  by (simp add: parser_defs)


subsection \<open>What one handled result changes\<close>

lemma history_handle:
  "history (handleStreamingResult r c t s) = take 20 (detectionResultOf r c t # history s)"
  by (simp add: handleStreamingResult_def detectionResultOf_def Let_def)

lemma lastResult_handle:
  "lastResult (handleStreamingResult r c t s) = Some (detectionResultOf r c t)"
  by (simp add: handleStreamingResult_def detectionResultOf_def Let_def)

lemma handle_rising:
  "fst (parseScores r) > 30 \<Longrightarrow> \<not> detectionEvent s \<Longrightarrow>
   emitted (handleStreamingResult r c t s) = emitted s @ [RisingEdge c] \<and>
   detectionEvent (handleStreamingResult r c t s) \<and>
   consecutiveDetections (handleStreamingResult r c t s) = consecutiveDetections s + 1"
  by (simp add: handleStreamingResult_def Let_def)



subsection \<open>Detection state machine\<close>



subsection \<open>Verdict cutoffs\<close>

text \<open>
  Claim C6. The streaming verdict is \<open>aiPercent > 30\<close> and the single-request verdict is
  \<open>aiPercent > 50\<close>, both strict: 30 percent does not trigger the streaming flow, 50 percent
  does not trigger the single-request flow, and 40 percent triggers the first and not the
  second.
\<close>

theorem verdict_is_strict_cutoff:
  "lastResult (handleStreamingResult r c t s) = Some (detectionResultOf r c t) \<and>
   aiPercent (detectionResultOf r c t) = fst (parseScores r) \<and>
   isAI (detectionResultOf r c t) = (aiPercent (detectionResultOf r c t) > 30) \<and>
   clipAiPercent (fst (processAudioResult r t prev)) = fst (parseScores r) \<and>
   clipIsAI (fst (processAudioResult r t prev)) =
     (clipAiPercent (fst (processAudioResult r t prev)) > 50) \<and>
   \<not> isAI (detectionResultOf ''AI Generated: 30%'' c t) \<and>
   isAI (detectionResultOf ''AI Generated: 40%'' c t) \<and>
   \<not> clipIsAI (fst (processAudioResult ''AI Generated: 40%'' t prev)) \<and>
   \<not> clipIsAI (fst (processAudioResult ''AI Generated: 50%'' t prev))"
  by (simp add: handleStreamingResult_def detectionResultOf_def processAudioResult_def Let_def
      score30 score40 score50)

subsection \<open>History ledger\<close>

lemma history_handleAll:
  "length (history s) \<le> 20 \<Longrightarrow>
   history (handleAll rs s) =
     take 20 (rev (map (\<lambda>(r, c, t). detectionResultOf r c t) rs) @ history s)"
proof (induction rs arbitrary: s)
  case Nil
  then show ?case by simp
next
  case (Cons x rs)
  obtain r c t where x: "x = (r, c, t)" by (cases x)
  have len: "length (history (handleStreamingResult r c t s)) \<le> 20"
    by (simp add: history_handle)
  have "take 20 (rev (map (\<lambda>(r, c, t). detectionResultOf r c t) rs) @
          take 20 (detectionResultOf r c t # history s)) =
        take 20 (rev (map (\<lambda>(r, c, t). detectionResultOf r c t) rs) @
          detectionResultOf r c t # history s)"
    by (simp add: take_Cons' min_def)
  then show ?case using Cons.IH[OF len] x
    by (simp add: history_handle)
qed

text \<open>
  Claim C7. A ledger of at most 20 entries stays at most 20 entries long however many results
  are handled; it holds the results newest first, namely the first 20 of the reversed run of
  results followed by the earlier entries; one handled result goes to the front and only the
  first 19 earlier entries are kept, so the entry dropped at capacity is the oldest one. From
  the empty ledger of the initial state, the ledger is the first 20 of the reversed run.
\<close>

theorem history_ledger_bounded:
  "length (history s) \<le> 20 \<Longrightarrow>
   length (history (handleAll rs s)) \<le> 20 \<and>
   history (handleAll rs s) =
     take 20 (rev (map (\<lambda>(r, c, t). detectionResultOf r c t) rs) @ history s) \<and>
   history (handleStreamingResult r c t s) = detectionResultOf r c t # take 19 (history s) \<and>
   length (history (handleAll rs initialSession)) \<le> 20 \<and>
   history (handleAll rs initialSession) =
     take 20 (rev (map (\<lambda>(r, c, t). detectionResultOf r c t) rs))"
  using history_handleAll[of s rs] history_handleAll[of initialSession rs]
  by (simp add: history_handle take_Cons' initialSession_def)

theorem history_ledger_bounded_witness:
  "length (history initialSession) \<le> 20 \<and>
   history (handleAll [(''x'', 1, 100), (''y'', 2, 200)] initialSession) =
     [detectionResultOf ''y'' 2 200, detectionResultOf ''x'' 1 100]"
  using history_ledger_bounded[of initialSession "[(''x'', 1, 100), (''y'', 2, 200)]" "''x''" 1 100]
  by (simp add: initialSession_def)

subsection \<open>Volume\<close>

lemma foldl_squares:
  "foldl (\<lambda>acc val. acc + val * val) a xs = a + sum_list (map (\<lambda>x. x\<^sup>2) xs)" for a :: real
  by (induction xs arbitrary: a) (simp_all add: power2_eq_square)



subsection \<open>Scheduler gates\<close>

lemma calculateRMS_replicate: "0 < n \<Longrightarrow> calculateRMS (replicate n a) = \<bar>a\<bar>"
proof -
  assume n: "0 < n"
  have "sum_list (map (\<lambda>x. x\<^sup>2) (replicate n a)) = real n * a\<^sup>2"
    by (induction n) (simp_all add: algebra_simps)
  then show ?thesis using n by (simp add: calculateRMS_def foldl_squares)
qed

lemma duration_gate:
  "(real (length buf) / real (RATE streamingConfig) < CHUNK_DURATION streamingConfig)
     = (length buf < 88200)"
  by (auto simp add: streamingConfig_def field_simps)

lemma samplesNeeded_eq:
  "nat \<lfloor>CHUNK_DURATION streamingConfig * real (RATE streamingConfig)\<rfloor> = 88200"
  "\<lceil>CHUNK_DURATION streamingConfig * real (RATE streamingConfig)\<rceil> = 88200"
  by (simp_all add: streamingConfig_def)

lemma inFlight_tick:
  "inFlight (processStreamingChunk now s) =
     (if isStreaming s \<and> audioBuffer s \<noteq> [] \<and> \<not> now - lastProcessTime s < 500 \<and>
         88200 \<le> length (audioBuffer s) \<and> \<not> calculateRMS (audioBuffer s) < 1 / 10000
      then inFlight s @
        [\<lparr>jobChunkId = chunkCount s + 1,
          chunkWindow = drop (length (audioBuffer s) - 88200) (audioBuffer s),
          wavBlob = createWavBlob (drop (length (audioBuffer s) - 88200) (audioBuffer s)) 22050\<rparr>]
      else inFlight s)"
  unfolding processStreamingChunk_def Let_def duration_gate samplesNeeded_eq
  by (simp add: streamingConfig_def sliceFromEnd_def)

lemma tick_too_soon:
  "now - lastProcessTime s < 500 \<Longrightarrow> processStreamingChunk now s = s"
  by (simp add: processStreamingChunk_def streamingConfig_def)

lemma tick_idle:
  "\<not> isStreaming s \<or> audioBuffer s = [] \<Longrightarrow> processStreamingChunk now s = s"
  by (auto simp add: processStreamingChunk_def)

lemma tick_frame:
  "isStreaming (processStreamingChunk now s) = isStreaming s"
  "audioBuffer (processStreamingChunk now s) = audioBuffer s"
  "timerSet (processStreamingChunk now s) = timerSet s"
  "isRecording (processStreamingChunk now s) = isRecording s"
  "lastResult (processStreamingChunk now s) = lastResult s"
  "history (processStreamingChunk now s) = history s"
  "detectionEvent (processStreamingChunk now s) = detectionEvent s"
  "consecutiveDetections (processStreamingChunk now s) = consecutiveDetections s"
  "emitted (processStreamingChunk now s) = emitted s"
  by (simp_all add: processStreamingChunk_def Let_def)

lemma lastProcessTime_tick:
  "isStreaming s \<Longrightarrow> audioBuffer s \<noteq> [] \<Longrightarrow> \<not> now - lastProcessTime s < 500 \<Longrightarrow>
   lastProcessTime (processStreamingChunk now s) = now"
  unfolding processStreamingChunk_def Let_def
  by (simp add: streamingConfig_def)

lemma chunkCount_tick:
  "chunkCount (processStreamingChunk now s) =
     (if isStreaming s \<and> audioBuffer s \<noteq> [] \<and> \<not> now - lastProcessTime s < 500 \<and>
         88200 \<le> length (audioBuffer s) \<and> \<not> calculateRMS (audioBuffer s) < 1 / 10000
      then chunkCount s + 1 else chunkCount s)"
  unfolding processStreamingChunk_def Let_def duration_gate samplesNeeded_eq
  by (simp add: streamingConfig_def)

lemma filled_fields:
  "isStreaming (filledSession n a)" "timerSet (filledSession n a)" "isRecording (filledSession n a)"
  "audioBuffer (filledSession n a) = replicate n a" "lastProcessTime (filledSession n a) = 0"
  "chunkCount (filledSession n a) = 0" "inFlight (filledSession n a) = []"
  "lastResult (filledSession n a) = None" "history (filledSession n a) = []"
  "\<not> detectionEvent (filledSession n a)" "consecutiveDetections (filledSession n a) = 0"
  "emitted (filledSession n a) = []"
  by (simp_all add: filledSession_def startRecording_def initialSession_def)

lemma first_tick:
  "map jobChunkId (inFlight (processStreamingChunk 1000 (filledSession 88200 (1 / 2)))) = [1]"
  by (simp add: inFlight_tick filled_fields calculateRMS_replicate)

lemma second_tick:
  "map jobChunkId (inFlight (processStreamingChunk 1500
      (processStreamingChunk 1000 (filledSession 88200 (1 / 2))))) = [1, 2]"
  by (simp add: inFlight_tick[of 1500] tick_frame lastProcessTime_tick chunkCount_tick
      first_tick filled_fields calculateRMS_replicate)

subsection \<open>Round trips and their completion\<close>

lemma uploadCalls_le: "uploadCalls (processAudioChunk parse net) \<le> 1"
  by (simp add: processAudioChunk_def split: prod.splits sum.splits)

lemma inFlight_handle: "inFlight (handleStreamingResult r c t s) = inFlight s"
  by (simp add: handleStreamingResult_def Let_def)

lemma length_removeJob:
  "cid \<in> set (map jobChunkId js) \<Longrightarrow> length (removeJob cid js) = length js - 1"
proof (induction js)
  case Nil
  then show ?case by simp
next
  case (Cons j js)
  show ?case
  proof (cases "jobChunkId j = cid")
    case True
    then show ?thesis by simp
  next
    case False
    with Cons.prems have mem: "cid \<in> set (map jobChunkId js)" by auto
    then have "js \<noteq> []" by auto
    then have "0 < length js" by simp
    with Cons.IH[OF mem] False show ?thesis by simp
  qed
qed

lemma inFlight_complete:
  "inFlight (completeChunk parse net cid t s) = removeJob cid (inFlight s)"
proof -
  have "cid \<notin> set (map jobChunkId js) \<Longrightarrow> removeJob cid js = js" for js
    by (induction js) auto
  then show ?thesis
    by (auto simp add: completeChunk_def Let_def inFlight_handle split: sum.splits option.splits)
qed

lemma complete_applies:
  "cid \<in> set (map jobChunkId (inFlight s)) \<Longrightarrow>
   outcome (processAudioChunk parse net) = Inr (Some r) \<Longrightarrow>
   completeChunk parse net cid now s =
     handleStreamingResult r cid now (s\<lparr>inFlight := removeJob cid (inFlight s)\<rparr>)"
  by (simp add: completeChunk_def Let_def)

lemma complete_drops:
  "cid \<in> set (map jobChunkId (inFlight s)) \<Longrightarrow>
   outcome (processAudioChunk parse net) = Inr None \<or>
   outcome (processAudioChunk parse net) = Inl e \<Longrightarrow>
   completeChunk parse net cid now s = s\<lparr>inFlight := removeJob cid (inFlight s)\<rparr>"
  by (auto simp add: completeChunk_def Let_def)

lemma scores_example: "parseScores exampleResult = (165 / 2, 35 / 2)"
  by (simp add: parser_defs exampleResult_def)

lemma steady_example:
  "outcome (processAudioChunk parseExamples
      (steadyNetwork ''data: [\"AI Generated: 82.5% | Real Voice: 17.5%\"]''))
   = Inr (Some exampleResult)"
  by (simp add: processAudioChunk_def steadyNetwork_def pollLoop.simps startsWith_def
      parseExamples_def Let_def exampleResult_def)

lemma stop_fields:
  "isRecording s \<Longrightarrow> \<not> isStreaming (stopRecording ok s) \<and> \<not> timerSet (stopRecording ok s) \<and>
     \<not> isRecording (stopRecording ok s) \<and> inFlight (stopRecording ok s) = inFlight s \<and>
     lastResult (stopRecording ok s) = lastResult s \<and> history (stopRecording ok s) = history s \<and>
     detectionEvent (stopRecording ok s) = detectionEvent s \<and>
     consecutiveDetections (stopRecording ok s) = consecutiveDetections s \<and>
     emitted (stopRecording ok s) = emitted s"
  by (simp add: stopRecording_def Let_def)

subsection \<open>One job in flight\<close>

text \<open>
  Claim C1, as stated, fails. A session is started and its buffer holds 4 seconds of samples of
  amplitude 0.5. The tick at clock 1000 dispatches a chunk. No round trip completes. The tick
  at clock 1500 dispatches a second chunk: two jobs are in flight, and each of them makes its
  upload call.
\<close>

theorem second_tick_dispatches_counterexample:
  "timerSet (filledSession 88200 (1 / 2)) \<and>
   length (inFlight (timerTick 1000 (filledSession 88200 (1 / 2)))) = 1 \<and>
   length (inFlight (timerTick 1500 (timerTick 1000 (filledSession 88200 (1 / 2))))) = 2 \<and>
   uploadCalls (processAudioChunk parseExamples (steadyNetwork [])) = 1"
proof -
  have "length (map jobChunkId (inFlight (timerTick 1000 (filledSession 88200 (1 / 2))))) = 1"
    "length (map jobChunkId
       (inFlight (timerTick 1500 (timerTick 1000 (filledSession 88200 (1 / 2)))))) = 2"
    by (simp_all only: timerTick_def tick_frame filled_fields if_True first_tick second_tick)
      simp_all
  then show ?thesis
    by (simp add: filled_fields processAudioChunk_def steadyNetwork_def
        split: prod.splits sum.splits)
qed

text \<open>
  Claim C1, amended. A tick dispatches one new job exactly when the session is streaming, the
  buffer is not empty, at least 500 ms have passed since the last tick that got past this
  time check, the buffer holds at least 88200 samples and its RMS volume is not below the
  threshold; the jobs already in flight play no part. A tick less than 500 ms after the last
  one that passed the time check changes nothing, so a second tick less than 500 ms after a
  tick that passed it dispatches nothing. One round trip makes at most one upload call, and
  its completion takes exactly one job out of flight.
\<close>

theorem tick_dispatches_by_gates_alone:
  "inFlight (processStreamingChunk now s) =
     (if isStreaming s \<and> audioBuffer s \<noteq> [] \<and> \<not> now - lastProcessTime s < 500 \<and>
         88200 \<le> length (audioBuffer s) \<and> \<not> calculateRMS (audioBuffer s) < 1 / 10000
      then inFlight s @
        [\<lparr>jobChunkId = chunkCount s + 1,
          chunkWindow = drop (length (audioBuffer s) - 88200) (audioBuffer s),
          wavBlob = createWavBlob (drop (length (audioBuffer s) - 88200) (audioBuffer s)) 22050\<rparr>]
      else inFlight s) \<and>
   (now - lastProcessTime s < 500 \<longrightarrow> processStreamingChunk now s = s) \<and>
   (isStreaming s \<and> audioBuffer s \<noteq> [] \<and> \<not> now - lastProcessTime s < 500 \<and> now' - now < 500
      \<longrightarrow> processStreamingChunk now' (processStreamingChunk now s) = processStreamingChunk now s) \<and>
   uploadCalls (processAudioChunk parse net) \<le> 1 \<and>
   (cid \<in> set (map jobChunkId (inFlight s)) \<longrightarrow>
      length (inFlight (completeChunk parse net cid t s)) = length (inFlight s) - 1)"
  using inFlight_tick[of now s] tick_too_soon[of now s]
    tick_too_soon[of now' "processStreamingChunk now s"] lastProcessTime_tick[of s now]
    uploadCalls_le[of parse net] length_removeJob[of cid "inFlight s"]
  by (simp add: inFlight_complete)

theorem tick_dispatches_by_gates_alone_witness:
  "map jobChunkId (inFlight (processStreamingChunk 1000 (filledSession 88200 (1 / 2)))) = [1] \<and>
   (1200 :: int) - 1000 < 500 \<and>
   processStreamingChunk 1200 (processStreamingChunk 1000 (filledSession 88200 (1 / 2))) =
     processStreamingChunk 1000 (filledSession 88200 (1 / 2)) \<and>
   (100 :: int) - lastProcessTime (filledSession 88200 (1 / 2)) < 500 \<and>
   processStreamingChunk 100 (filledSession 88200 (1 / 2)) = filledSession 88200 (1 / 2) \<and>
   1 \<in> set (map jobChunkId (inFlight (processStreamingChunk 1000 (filledSession 88200 (1 / 2))))) \<and>
   length (inFlight (completeChunk parseExamples (steadyNetwork []) 1 2000
     (processStreamingChunk 1000 (filledSession 88200 (1 / 2))))) = 0"
  using tick_dispatches_by_gates_alone[of 1000 "filledSession 88200 (1 / 2)" 1200 parseExamples
      "steadyNetwork []" 1 2000]
    tick_dispatches_by_gates_alone[of 100 "filledSession 88200 (1 / 2)" 1200 parseExamples
      "steadyNetwork []" 1 2000]
    tick_dispatches_by_gates_alone[of 1200 "processStreamingChunk 1000 (filledSession 88200 (1 / 2))"
      1200 parseExamples "steadyNetwork []" 1 2000]
  by (simp add: filled_fields first_tick tick_frame lastProcessTime_tick calculateRMS_replicate)

subsection \<open>Stopping a session\<close>

text \<open>
  Claim C2, as stated, fails. Chunk 1 is dispatched at clock 1000 and the session is stopped
  while its round trip is outstanding. The round trip then completes at clock 2000 with the
  result text of the example: the result becomes \<open>lastResult\<close>, enters the history ledger
  and raises a detection event.
\<close>

theorem result_applied_after_stop_counterexample:
  "isRecording (timerTick 1000 (filledSession 88200 (1 / 2))) \<and>
   map jobChunkId (inFlight (timerTick 1000 (filledSession 88200 (1 / 2)))) = [1] \<and>
   lastResult (timerTick 1000 (filledSession 88200 (1 / 2))) = None \<and>
   lastResult (completeChunk parseExamples
      (steadyNetwork ''data: [\"AI Generated: 82.5% | Real Voice: 17.5%\"]'') 1 2000
      (stopRecording True (timerTick 1000 (filledSession 88200 (1 / 2))))) =
     Some \<lparr>isAI = True, aiPercent = 165 / 2, realPercent = 35 / 2, timestamp = 2000, chunkId = 1\<rparr> \<and>
   history (completeChunk parseExamples
      (steadyNetwork ''data: [\"AI Generated: 82.5% | Real Voice: 17.5%\"]'') 1 2000
      (stopRecording True (timerTick 1000 (filledSession 88200 (1 / 2))))) =
     [\<lparr>isAI = True, aiPercent = 165 / 2, realPercent = 35 / 2, timestamp = 2000, chunkId = 1\<rparr>] \<and>
   emitted (completeChunk parseExamples
      (steadyNetwork ''data: [\"AI Generated: 82.5% | Real Voice: 17.5%\"]'') 1 2000
      (stopRecording True (timerTick 1000 (filledSession 88200 (1 / 2))))) = [RisingEdge 1]"
proof -
  let ?s1 = "timerTick 1000 (filledSession 88200 (1 / 2))"
  let ?s2 = "stopRecording True ?s1"
  have t: "?s1 = processStreamingChunk 1000 (filledSession 88200 (1 / 2))"
    by (simp add: timerTick_def filled_fields)
  have rec: "isRecording ?s1" by (simp add: t tick_frame filled_fields)
  have fl: "map jobChunkId (inFlight ?s1) = [1]" by (simp add: t first_tick)
  have fields: "lastResult ?s1 = None" "history ?s1 = []" "\<not> detectionEvent ?s1"
    "emitted ?s1 = []"
    by (simp_all add: t tick_frame filled_fields)
  note st = stop_fields[OF rec, of True]
  have mem: "1 \<in> set (map jobChunkId (inFlight ?s2))" using st fl by simp
  show ?thesis
    unfolding complete_applies[OF mem steady_example]
    using rec fl fields st
    by (simp add: lastResult_handle history_handle detectionResultOf_def scores_example
        handle_rising)
qed

text \<open>
  Claim C2, amended. Stopping a recording session clears the streaming flag and the timer, so
  every later tick leaves the state as it is and dispatches nothing. The jobs in flight stay
  in flight. When the round trip of one of them completes with a result text after the stop,
  the result is handled as it would be without the stop: it becomes \<open>lastResult\<close>, goes to
  the front of the history ledger, and the detection state machine takes the same step.
\<close>

theorem stop_blocks_ticks_not_results:
  assumes "isRecording s"
  shows "\<not> isStreaming (stopRecording ok s) \<and> \<not> timerSet (stopRecording ok s) \<and>
     timerTick now (stopRecording ok s) = stopRecording ok s \<and>
     processStreamingChunk now (stopRecording ok s) = stopRecording ok s \<and>
     inFlight (stopRecording ok s) = inFlight s \<and>
     (cid \<in> set (map jobChunkId (inFlight s)) \<and>
      outcome (processAudioChunk parse net) = Inr (Some r) \<longrightarrow>
        lastResult (completeChunk parse net cid t (stopRecording ok s)) =
          Some (detectionResultOf r cid t) \<and>
        history (completeChunk parse net cid t (stopRecording ok s)) =
          take 20 (detectionResultOf r cid t # history s) \<and>
        detectionEvent (completeChunk parse net cid t (stopRecording ok s)) =
          detectionEvent (completeChunk parse net cid t s) \<and>
        consecutiveDetections (completeChunk parse net cid t (stopRecording ok s)) =
          consecutiveDetections (completeChunk parse net cid t s) \<and>
        emitted (completeChunk parse net cid t (stopRecording ok s)) =
          emitted (completeChunk parse net cid t s))"
proof -
  note st = stop_fields[OF assms, of ok]
  have tick: "processStreamingChunk now (stopRecording ok s) = stopRecording ok s"
    using st by (simp add: tick_idle)
  have "timerTick now (stopRecording ok s) = stopRecording ok s"
    using st by (simp add: timerTick_def)
  moreover have "cid \<in> set (map jobChunkId (inFlight s)) \<Longrightarrow>
      outcome (processAudioChunk parse net) = Inr (Some r) \<Longrightarrow>
        lastResult (completeChunk parse net cid t (stopRecording ok s)) =
          Some (detectionResultOf r cid t) \<and>
        history (completeChunk parse net cid t (stopRecording ok s)) =
          take 20 (detectionResultOf r cid t # history s) \<and>
        detectionEvent (completeChunk parse net cid t (stopRecording ok s)) =
          detectionEvent (completeChunk parse net cid t s) \<and>
        consecutiveDetections (completeChunk parse net cid t (stopRecording ok s)) =
          consecutiveDetections (completeChunk parse net cid t s) \<and>
        emitted (completeChunk parse net cid t (stopRecording ok s)) =
          emitted (completeChunk parse net cid t s)"
  proof -
    assume mem: "cid \<in> set (map jobChunkId (inFlight s))"
      and out: "outcome (processAudioChunk parse net) = Inr (Some r)"
    have mem': "cid \<in> set (map jobChunkId (inFlight (stopRecording ok s)))"
      using st mem by simp
    show ?thesis
      unfolding complete_applies[OF mem' out] complete_applies[OF mem out]
      using st by (simp add: handleStreamingResult_def Let_def detectionResultOf_def)
  qed
  ultimately show ?thesis using st tick by blast
qed

theorem stop_blocks_ticks_not_results_witness:
  "isRecording (processStreamingChunk 1000 (filledSession 88200 (1 / 2))) \<and>
   1 \<in> set (map jobChunkId (inFlight (processStreamingChunk 1000 (filledSession 88200 (1 / 2))))) \<and>
   outcome (processAudioChunk parseExamples
      (steadyNetwork ''data: [\"AI Generated: 82.5% | Real Voice: 17.5%\"]'')) =
     Inr (Some exampleResult) \<and>
   processStreamingChunk 3000
      (stopRecording True (processStreamingChunk 1000 (filledSession 88200 (1 / 2)))) =
     stopRecording True (processStreamingChunk 1000 (filledSession 88200 (1 / 2))) \<and>
   lastResult (completeChunk parseExamples
      (steadyNetwork ''data: [\"AI Generated: 82.5% | Real Voice: 17.5%\"]'') 1 2000
      (stopRecording True (processStreamingChunk 1000 (filledSession 88200 (1 / 2))))) =
     Some (detectionResultOf exampleResult 1 2000)"
proof -
  have rec: "isRecording (processStreamingChunk 1000 (filledSession 88200 (1 / 2)))"
    by (simp add: tick_frame filled_fields)
  show ?thesis
    using stop_blocks_ticks_not_results[OF rec, of True 3000 1 parseExamples
        "steadyNetwork ''data: [\"AI Generated: 82.5% | Real Voice: 17.5%\"]''"
        exampleResult 2000]
      rec first_tick steady_example
    by simp
qed

subsection \<open>Chunk window\<close>

text \<open>
  Claim C8. When a tick passes every gate, and so the buffer passes the duration gate, the job
  it dispatches carries a window \<open>w\<close> with \<open>audioBuffer = pre @ w\<close> for some \<open>pre\<close>: the
  window is the tail of the buffer, taken from position \<open>length buffer - length w\<close> on, and
  its length is the ceiling of \<open>CHUNK_DURATION * RATE\<close>.
\<close>

theorem window_is_tail_of_buffer:
  assumes "isStreaming s" and "audioBuffer s \<noteq> []"
    and "\<not> now - lastProcessTime s < STREAM_INTERVAL streamingConfig"
    and "\<not> real (length (audioBuffer s)) / real (RATE streamingConfig)
           < CHUNK_DURATION streamingConfig"
    and "\<not> calculateRMS (audioBuffer s) < MIN_VOLUME_THRESHOLD streamingConfig"
  shows "\<exists>pre w. inFlight (processStreamingChunk now s) =
           inFlight s @ [\<lparr>jobChunkId = chunkCount s + 1, chunkWindow = w,
             wavBlob = createWavBlob w (RATE streamingConfig)\<rparr>] \<and>
         audioBuffer s = pre @ w \<and>
         w = drop (length (audioBuffer s) - length w) (audioBuffer s) \<and>
         int (length w) = \<lceil>CHUNK_DURATION streamingConfig * real (RATE streamingConfig)\<rceil>"
proof -
  let ?buf = "audioBuffer s"
  let ?w = "drop (length ?buf - 88200) ?buf"
  have len: "88200 \<le> length ?buf" using assms(4) by (simp add: duration_gate)
  have gates: "\<not> now - lastProcessTime s < 500" "\<not> calculateRMS ?buf < 1 / 10000"
    using assms(3,5) by (simp_all add: streamingConfig_def)
  have "inFlight (processStreamingChunk now s) =
          inFlight s @ [\<lparr>jobChunkId = chunkCount s + 1, chunkWindow = ?w,
            wavBlob = createWavBlob ?w (RATE streamingConfig)\<rparr>]"
    using assms(1,2) gates len by (simp add: inFlight_tick streamingConfig_def)
  moreover have "?buf = take (length ?buf - 88200) ?buf @ ?w" by simp
  moreover have "length ?w = 88200" using len by simp
  moreover have "int (length ?w) = \<lceil>CHUNK_DURATION streamingConfig * real (RATE streamingConfig)\<rceil>"
    using len by (simp add: samplesNeeded_eq)
  ultimately show ?thesis by metis
qed

theorem window_is_tail_of_buffer_witness:
  "isStreaming (filledSession 88201 (1 / 2)) \<and> audioBuffer (filledSession 88201 (1 / 2)) \<noteq> [] \<and>
   \<not> 1000 - lastProcessTime (filledSession 88201 (1 / 2)) < STREAM_INTERVAL streamingConfig \<and>
   \<not> real (length (audioBuffer (filledSession 88201 (1 / 2)))) / real (RATE streamingConfig)
           < CHUNK_DURATION streamingConfig \<and>
   \<not> calculateRMS (audioBuffer (filledSession 88201 (1 / 2))) < MIN_VOLUME_THRESHOLD streamingConfig \<and>
   map (\<lambda>j. length (chunkWindow j)) (inFlight (processStreamingChunk 1000 (filledSession 88201 (1 / 2))))
     = [88200]"
proof -
  have h: "isStreaming (filledSession 88201 (1 / 2))" "audioBuffer (filledSession 88201 (1 / 2)) \<noteq> []"
    "\<not> 1000 - lastProcessTime (filledSession 88201 (1 / 2)) < STREAM_INTERVAL streamingConfig"
    "\<not> real (length (audioBuffer (filledSession 88201 (1 / 2)))) / real (RATE streamingConfig)
           < CHUNK_DURATION streamingConfig"
    "\<not> calculateRMS (audioBuffer (filledSession 88201 (1 / 2))) < MIN_VOLUME_THRESHOLD streamingConfig"
    by (simp_all add: filled_fields calculateRMS_replicate streamingConfig_def)
  from window_is_tail_of_buffer[OF h] h show ?thesis
    by (auto simp add: filled_fields samplesNeeded_eq)
qed

subsection \<open>Polling\<close>

lemma scanLines_map_filter:
  "scanLines parse lines result =
     (case List.map_filter (arrayHead parse) lines of [] \<Rightarrow> result | x # xs \<Rightarrow> x)"
  by (induction lines)
    (auto simp add: List.map_filter_simps arrayHead_def split: option.splits json.splits list.splits)

lemma scan_carry:
  assumes "\<not> truthy prev"
  shows "truthy (scanLines parse ls prev) = truthy (scanLines parse ls JNull)"
    and "truthy (scanLines parse ls JNull) \<Longrightarrow> scanLines parse ls prev = scanLines parse ls JNull"
  using assms by (auto simp add: scanLines_map_filter split: list.splits)

lemma pollLoop_bounds:
  "i \<le> 10 \<Longrightarrow> pollLoop parse poll i result w = (out, n, w') \<Longrightarrow>
   n \<le> 10 \<and> i \<le> n \<and> (w' = w + 200 * (n - i) \<or> w' + 200 = w + 200 * (n - i))"
proof (induction parse poll i result w rule: pollLoop.induct)
  case (1 parse poll i result waited)
  show ?case
  proof (cases "i < 10")
    case False
    then have "pollLoop parse poll i result waited = (Inr result, i, waited)"
      by (subst pollLoop.simps) simp
    with "1.prems" False show ?thesis by simp
  next
    case lt: True
    show ?thesis
    proof (cases "poll i")
      case None
      with lt "1.prems" show ?thesis by (auto simp add: pollLoop.simps[of parse poll i])
    next
      case (Some resp)
      let ?r = "scanLines parse (splitLines resp) result"
      show ?thesis
      proof (cases "truthy ?r")
        case True
        with lt Some "1.prems" show ?thesis
          by (auto simp add: pollLoop.simps[of parse poll i] Let_def)
      next
        case False
        with lt Some "1.prems"
        have rec: "pollLoop parse poll (i + 1) ?r (waited + 200) = (out, n, w')"
          by (simp add: pollLoop.simps[of parse poll i] Let_def)
        from "1.IH"[OF lt Some refl False _ rec] lt
        have "n \<le> 10 \<and> i + 1 \<le> n \<and>
          (w' = waited + 200 + 200 * (n - (i + 1)) \<or> w' + 200 = waited + 200 + 200 * (n - (i + 1)))"
          by simp
        then show ?thesis by (auto simp add: algebra_simps) 
      qed
    qed
  qed
qed

lemma pollLoop_success:
  assumes "\<not> truthy result" and "k < 10" and "i \<le> k"
    and "\<forall>j. i \<le> j \<and> j < k \<longrightarrow> (\<exists>t. poll j = Some t \<and> \<not> truthy (scanResponse parse t))"
    and "poll k = Some t" and "truthy (scanResponse parse t)"
  shows "pollLoop parse poll i result w = (Inr (scanResponse parse t), k + 1, w + 200 * (k - i))"
  using assms(1,3,4)
proof (induction "k - i" arbitrary: i result w)
  case 0
  then have ik: "i = k" by simp
  have "scanLines parse (splitLines t) result = scanResponse parse t"
    "truthy (scanLines parse (splitLines t) result)"
    using scan_carry[OF "0.prems"(1), of parse "splitLines t"] assms(6)
    by (simp_all add: scanResponse_def)
  then show ?case using assms(2,5) ik
    by (simp add: pollLoop.simps[of parse poll k] Let_def)
next
  case (Suc d)
  then have lt: "i < k" by simp
  with Suc.prems(3) obtain u where u: "poll i = Some u" "\<not> truthy (scanResponse parse u)"
    by auto
  let ?r = "scanLines parse (splitLines u) result"
  have nr: "\<not> truthy ?r"
    using scan_carry(1)[OF Suc.prems(1), of parse "splitLines u"] u(2)
    by (simp add: scanResponse_def)
  have step: "pollLoop parse poll i result w = pollLoop parse poll (i + 1) ?r (w + 200)"
    using lt assms(2) u(1) nr by (simp add: pollLoop.simps[of parse poll i] Let_def)
  have "pollLoop parse poll (i + 1) ?r (w + 200) =
      (Inr (scanResponse parse t), k + 1, w + 200 + 200 * (k - (i + 1)))"
    using Suc.hyps(2) lt Suc.prems(3) by (intro Suc.hyps(1)[OF _ nr]) auto
  with step lt show ?case by (simp add: algebra_simps) 
qed

lemma pollLoop_timeout:
  assumes "\<not> truthy result" and "i \<le> 10"
    and "\<forall>j. i \<le> j \<and> j < 10 \<longrightarrow> (\<exists>t. poll j = Some t \<and> \<not> truthy (scanResponse parse t))"
  shows "\<exists>res. pollLoop parse poll i result w = (Inr res, 10, w + 200 * (10 - i)) \<and> \<not> truthy res"
  using assms
proof (induction "10 - i" arbitrary: i result w)
  case 0
  then have "i = 10" by simp
  with "0.prems"(1) show ?case by (simp add: pollLoop.simps[of parse poll 10])
next
  case (Suc d)
  then have lt: "i < 10" by simp
  with Suc.prems(3) obtain u where u: "poll i = Some u" "\<not> truthy (scanResponse parse u)"
    by auto
  let ?r = "scanLines parse (splitLines u) result"
  have nr: "\<not> truthy ?r"
    using scan_carry(1)[OF Suc.prems(1), of parse "splitLines u"] u(2)
    by (simp add: scanResponse_def)
  have step: "pollLoop parse poll i result w = pollLoop parse poll (i + 1) ?r (w + 200)"
    using lt u(1) nr by (simp add: pollLoop.simps[of parse poll i] Let_def)
  have "\<exists>res. pollLoop parse poll (i + 1) ?r (w + 200) =
      (Inr res, 10, w + 200 + 200 * (10 - (i + 1))) \<and> \<not> truthy res"
    using Suc.hyps(2) lt Suc.prems(3) by (intro Suc.hyps(1)[OF _ nr]) auto
  with step lt show ?case by (auto simp add: algebra_simps)
qed


lemma processAudioChunk_polls:
  "writeOk net \<Longrightarrow> uploadOk net \<Longrightarrow> submitOk net \<Longrightarrow>
   pollLoop parse (pollText net) 0 JNull 0 = (Inr res, n, w) \<Longrightarrow>
   processAudioChunk parse net =
     \<lparr>uploadCalls = 1, pollCalls = n, delayMs = w,
      outcome = (if truthy res then (case res of JStr r \<Rightarrow> Inr (Some r) | other \<Rightarrow> Inl ResultNotString)
                 else Inr None)\<rparr>"
  by (simp add: processAudioChunk_def)

lemma round_trip_bounds:
  "pollCalls (processAudioChunk parse net) \<le> 10 \<and>
   delayMs (processAudioChunk parse net) \<le> 2000 \<and>
   (delayMs (processAudioChunk parse net) = 200 * pollCalls (processAudioChunk parse net) \<or>
    delayMs (processAudioChunk parse net) + 200 = 200 * pollCalls (processAudioChunk parse net))"
proof (cases "writeOk net \<and> uploadOk net \<and> submitOk net")
  case False
  then show ?thesis by (auto simp add: processAudioChunk_def)
next
  case True
  obtain out n w where p: "pollLoop parse (pollText net) 0 JNull 0 = (out, n, w)"
    by (cases "pollLoop parse (pollText net) 0 JNull 0") auto
  from pollLoop_bounds[OF _ p] have b: "n \<le> 10" "w = 200 * n \<or> w + 200 = 200 * n" by auto
  have "pollCalls (processAudioChunk parse net) = n" "delayMs (processAudioChunk parse net) = w"
    using True p by (auto simp add: processAudioChunk_def split: sum.splits)
  with b show ?thesis by auto
qed

lemma round_trip_success:
  assumes "writeOk net" "uploadOk net" "submitOk net" and "k < 10"
    and "\<forall>j<k. \<exists>t. pollText net j = Some t \<and> \<not> truthy (scanResponse parse t)"
    and "pollText net k = Some t" and "scanResponse parse t = JStr r" and "r \<noteq> []"
  shows "processAudioChunk parse net =
     \<lparr>uploadCalls = 1, pollCalls = k + 1, delayMs = 200 * k, outcome = Inr (Some r)\<rparr>"
proof -
  have "pollLoop parse (pollText net) 0 JNull 0 = (Inr (scanResponse parse t), k + 1, 0 + 200 * (k - 0))"
    using assms by (intro pollLoop_success) auto
  from processAudioChunk_polls[OF assms(1-3) this] assms(7,8) show ?thesis by simp
qed

lemma round_trip_timeout:
  assumes "writeOk net" "uploadOk net" "submitOk net"
    and "\<forall>j<10. \<exists>t. pollText net j = Some t \<and> \<not> truthy (scanResponse parse t)"
  shows "processAudioChunk parse net =
     \<lparr>uploadCalls = 1, pollCalls = 10, delayMs = 2000, outcome = Inr None\<rparr>"
proof -
  obtain res where "pollLoop parse (pollText net) 0 JNull 0 = (Inr res, 10, 0 + 200 * (10 - 0))"
    "\<not> truthy res"
    using pollLoop_timeout[of JNull 0 "pollText net" parse 0] assms(4) by auto
  from processAudioChunk_polls[OF assms(1-3) this(1)] this(2) show ?thesis by simp
qed

lemma complete_no_string:
  assumes "cid \<in> set (map jobChunkId (inFlight s))"
    and "\<forall>r. outcome (processAudioChunk parse net) \<noteq> Inr (Some r)"
  shows "completeChunk parse net cid now s = s\<lparr>inFlight := removeJob cid (inFlight s)\<rparr>"
  using assms by (auto simp add: completeChunk_def Let_def split: sum.splits option.splits)

lemma scan_examples:
  "scanResponse parseExamples ''event: heartbeat\<newline>data: null'' = JNull"
  "scanResponse parseExamples ''data: [\"AI Generated: 82.5% | Real Voice: 17.5%\"]'' = JStr exampleResult"
  "scanResponse parseExamples
     ''data: [\"\"]\<newline>data: [\"AI Generated: 82.5% | Real Voice: 17.5%\"]'' = JStr []"
  "scanResponse parseExamples
     ''data: [5]\<newline>data: [\"AI Generated: 82.5% | Real Voice: 17.5%\"]'' = JNum 5"
  by (simp_all add: scanResponse_def startsWith_def parseExamples_def)

lemma spec_examples:
  "specSelected parseExamples (splitLines
     ''data: [\"\"]\<newline>data: [\"AI Generated: 82.5% | Real Voice: 17.5%\"]'') = Some exampleResult"
  "specSelected parseExamples (splitLines
     ''data: [5]\<newline>data: [\"AI Generated: 82.5% | Real Voice: 17.5%\"]'') = Some exampleResult"
  by (simp_all add: startsWith_def parseExamples_def exampleResult_def)

lemma steady_fields:
  "writeOk (steadyNetwork t)" "uploadOk (steadyNetwork t)" "submitOk (steadyNetwork t)"
  "pollText (steadyNetwork t) j = Some t"
  by (simp_all add: steadyNetwork_def)

lemma delayed_fields:
  "writeOk (delayedNetwork k t)" "uploadOk (delayedNetwork k t)" "submitOk (delayedNetwork k t)"
  "pollText (delayedNetwork k t) j =
     (if j < k then Some ''event: heartbeat\<newline>data: null'' else Some t)"
  by (simp_all add: delayedNetwork_def)

text \<open>
  Claim C9, as stated, fails. Every poll is answered with two lines: an array whose first
  element is the empty string, then an array whose first element is the result text. The
  second line is the first one whose first element is a non-empty string, but the scan of
  each response stops at the first line, the element found there is falsy, and after 10 polls
  and 2000 ms of delays the chunk is dropped. With the number 5 in place of the empty string
  the scan selects 5 at the first poll and the round trip ends in the \<open>catch\<close> block.
\<close>

theorem first_array_not_first_string_counterexample:
  "specSelected parseExamples (splitLines
     ''data: [\"\"]\<newline>data: [\"AI Generated: 82.5% | Real Voice: 17.5%\"]'') = Some exampleResult \<and>
   processAudioChunk parseExamples (steadyNetwork
     ''data: [\"\"]\<newline>data: [\"AI Generated: 82.5% | Real Voice: 17.5%\"]'') =
     \<lparr>uploadCalls = 1, pollCalls = 10, delayMs = 2000, outcome = Inr None\<rparr> \<and>
   specSelected parseExamples (splitLines
     ''data: [5]\<newline>data: [\"AI Generated: 82.5% | Real Voice: 17.5%\"]'') = Some exampleResult \<and>
   processAudioChunk parseExamples (steadyNetwork
     ''data: [5]\<newline>data: [\"AI Generated: 82.5% | Real Voice: 17.5%\"]'') =
     \<lparr>uploadCalls = 1, pollCalls = 1, delayMs = 0, outcome = Inl ResultNotString\<rparr>"
proof -
  have a: "processAudioChunk parseExamples (steadyNetwork
     ''data: [\"\"]\<newline>data: [\"AI Generated: 82.5% | Real Voice: 17.5%\"]'') =
     \<lparr>uploadCalls = 1, pollCalls = 10, delayMs = 2000, outcome = Inr None\<rparr>"
    by (rule round_trip_timeout) (simp_all add: steady_fields scan_examples)
  have "pollLoop parseExamples (pollText (steadyNetwork
     ''data: [5]\<newline>data: [\"AI Generated: 82.5% | Real Voice: 17.5%\"]'')) 0 JNull 0 =
     (Inr (JNum 5), 1, 0)"
    using scan_examples(4) by (simp add: pollLoop.simps steady_fields scanResponse_def)
  from processAudioChunk_polls[OF steady_fields(1-3) this]
  have b: "processAudioChunk parseExamples (steadyNetwork
     ''data: [5]\<newline>data: [\"AI Generated: 82.5% | Real Voice: 17.5%\"]'') =
     \<lparr>uploadCalls = 1, pollCalls = 1, delayMs = 0, outcome = Inl ResultNotString\<rparr>"
    by simp
  show ?thesis using a b spec_examples by simp
qed

text \<open>
  Claim C9, amended. The scan of one response takes the first element of the first line with
  the prefix \<open>data: \<close> whose payload parses to a non-empty array, and looks at no later
  line; lines whose payload does not parse or is not a non-empty array are passed over. A
  round trip makes at most 10 polls and waits 200 ms after each poll that did not end it, at
  most 2000 ms. If the first poll whose element is truthy is poll \<open>k\<close> and the element is a
  string, that string is the result, after \<open>k + 1\<close> polls and \<open>200 * k\<close> ms. If none of the
  10 polls yields a truthy element, there is no result. A round trip that ends without a
  result string only takes its job out of flight: no \<open>DetectionResult\<close> is stored and the
  session goes on as it was.
\<close>

theorem poll_takes_first_array_head:
  "scanLines parse lines result =
     (case List.map_filter (arrayHead parse) lines of [] \<Rightarrow> result | x # xs \<Rightarrow> x) \<and>
   pollCalls (processAudioChunk parse net) \<le> 10 \<and>
   delayMs (processAudioChunk parse net) \<le> 2000 \<and>
   (delayMs (processAudioChunk parse net) = 200 * pollCalls (processAudioChunk parse net) \<or>
    delayMs (processAudioChunk parse net) + 200 = 200 * pollCalls (processAudioChunk parse net)) \<and>
   (writeOk net \<and> uploadOk net \<and> submitOk net \<and> k < 10 \<and>
    (\<forall>j<k. \<exists>t. pollText net j = Some t \<and> \<not> truthy (scanResponse parse t)) \<and>
    pollText net k = Some t \<and> scanResponse parse t = JStr r \<and> r \<noteq> [] \<longrightarrow>
      processAudioChunk parse net =
        \<lparr>uploadCalls = 1, pollCalls = k + 1, delayMs = 200 * k, outcome = Inr (Some r)\<rparr>) \<and>
   (writeOk net \<and> uploadOk net \<and> submitOk net \<and>
    (\<forall>j<10. \<exists>t. pollText net j = Some t \<and> \<not> truthy (scanResponse parse t)) \<longrightarrow>
      processAudioChunk parse net =
        \<lparr>uploadCalls = 1, pollCalls = 10, delayMs = 2000, outcome = Inr None\<rparr>) \<and>
   (cid \<in> set (map jobChunkId (inFlight s)) \<and>
    (\<forall>r. outcome (processAudioChunk parse net) \<noteq> Inr (Some r)) \<longrightarrow>
      completeChunk parse net cid now s = s\<lparr>inFlight := removeJob cid (inFlight s)\<rparr>)"
proof -
  have 1: "scanLines parse lines result =
     (case List.map_filter (arrayHead parse) lines of [] \<Rightarrow> result | x # xs \<Rightarrow> x)"
    by (rule scanLines_map_filter)
  have 2: "delayMs (processAudioChunk parse net) \<le> 2000"
    using round_trip_bounds[of parse net] by auto
  show ?thesis
    using 1 2 round_trip_bounds[of parse net] round_trip_success[of net k parse t r]
      round_trip_timeout[of net parse] complete_no_string[of cid s parse net now]
    by blast
qed

theorem poll_takes_first_array_head_witness:
  "scanLines parseExamples [''event: heartbeat'', ''data: {'', ''data: null'',
      ''data: [\"\"]'', ''data: [5]''] JNull = JStr [] \<and>
   processAudioChunk parseExamples
      (delayedNetwork 2 ''data: [\"AI Generated: 82.5% | Real Voice: 17.5%\"]'') =
     \<lparr>uploadCalls = 1, pollCalls = 3, delayMs = 400, outcome = Inr (Some exampleResult)\<rparr> \<and>
   processAudioChunk parseExamples (steadyNetwork ''event: heartbeat\<newline>data: null'') =
     \<lparr>uploadCalls = 1, pollCalls = 10, delayMs = 2000, outcome = Inr None\<rparr> \<and>
   1 \<in> set (map jobChunkId (inFlight (processStreamingChunk 1000 (filledSession 88200 (1 / 2))))) \<and>
   lastResult (completeChunk parseExamples (steadyNetwork ''event: heartbeat\<newline>data: null'')
      1 3000 (processStreamingChunk 1000 (filledSession 88200 (1 / 2)))) = None \<and>
   isStreaming (completeChunk parseExamples (steadyNetwork ''event: heartbeat\<newline>data: null'')
      1 3000 (processStreamingChunk 1000 (filledSession 88200 (1 / 2))))"
proof -
  let ?good = "''data: [\"AI Generated: 82.5% | Real Voice: 17.5%\"]''"
  let ?idle = "''event: heartbeat\<newline>data: null''"
  let ?s1 = "processStreamingChunk 1000 (filledSession 88200 (1 / 2))"
  have h1: "\<forall>j<2. \<exists>t. pollText (delayedNetwork 2 ?good) j = Some t \<and>
      \<not> truthy (scanResponse parseExamples t)"
    by (simp add: delayed_fields scan_examples)
  have h2: "\<forall>j<10. \<exists>t. pollText (steadyNetwork ?idle) j = Some t \<and>
      \<not> truthy (scanResponse parseExamples t)"
    by (simp add: steady_fields scan_examples)
  have mem: "1 \<in> set (map jobChunkId (inFlight ?s1))" by (simp add: first_tick)
  have a: "scanLines parseExamples [''event: heartbeat'', ''data: {'', ''data: null'',
      ''data: [\"\"]'', ''data: [5]''] JNull = JStr []"
    using poll_takes_first_array_head[of parseExamples "[''event: heartbeat'', ''data: {'',
        ''data: null'', ''data: [\"\"]'', ''data: [5]'']" JNull]
    by (simp add: List.map_filter_simps arrayHead_def startsWith_def parseExamples_def)
  have b: "processAudioChunk parseExamples (delayedNetwork 2 ?good) =
     \<lparr>uploadCalls = 1, pollCalls = 3, delayMs = 400, outcome = Inr (Some exampleResult)\<rparr>"
    using poll_takes_first_array_head[of parseExamples "[]" JNull "delayedNetwork 2 ?good" 2
        ?good exampleResult 1 ?s1 3000] h1
    by (simp add: delayed_fields scan_examples exampleResult_def)
  have c: "processAudioChunk parseExamples (steadyNetwork ?idle) =
     \<lparr>uploadCalls = 1, pollCalls = 10, delayMs = 2000, outcome = Inr None\<rparr>"
    using poll_takes_first_array_head[of parseExamples "[]" JNull "steadyNetwork ?idle" 2
        ?good exampleResult 1 ?s1 3000] h2
    by (simp add: steady_fields)
  have d: "completeChunk parseExamples (steadyNetwork ?idle) 1 3000 ?s1 =
      ?s1\<lparr>inFlight := removeJob 1 (inFlight ?s1)\<rparr>"
    using poll_takes_first_array_head[of parseExamples "[]" JNull "steadyNetwork ?idle" 2
        ?good exampleResult 1 ?s1 3000] mem c
    by simp
  show ?thesis using a b c mem
    unfolding d by (simp add: tick_frame filled_fields)
qed

subsection \<open>WAV encoder\<close>




lemma length_uint32LE [simp]: "length (uint32LE v) = 4" by (simp add: uint32LE_def)
lemma length_uint16LE [simp]: "length (uint16LE v) = 2" by (simp add: uint16LE_def)
lemma length_int16LE [simp]: "length (int16LE x) = 2" by (simp add: int16LE_def)









lemma writeAt_split:
  "length pre = offset \<Longrightarrow> length old = length bs \<Longrightarrow>
   writeAt offset bs (pre @ old @ post) = pre @ bs @ post"
  by (simp add: writeAt_def)




















subsection \<open>Score parser\<close>

lemma not_digit_chars [simp]: "\<not> isDigit CHR ''%''" "\<not> isDigit CHR ''.''"
  by (simp_all add: isDigit_def)

lemma bt_nil: "backtrack [] s g cap = Some (rev cap)"
  and bt_open: "backtrack (GroupOpen # ts) s g cap = backtrack ts s True []"
  and bt_close: "backtrack (GroupClose # ts) s g cap = backtrack ts s False cap"
  and bt_once_nil: "backtrack (Atom p Once # ts) [] g cap = None"
  and bt_once_cons: "backtrack (Atom p Once # ts) (c # r) g cap =
     (if p c then backtrack ts r g (if g then c # cap else cap) else None)"
  and bt_opt_nil: "backtrack (Atom p Optional # ts) [] g cap = backtrack ts [] g cap"
  and bt_opt_cons: "backtrack (Atom p Optional # ts) (c # r) g cap =
     (if p c then
        (case backtrack ts r g (if g then c # cap else cap) of
           Some m \<Rightarrow> Some m
         | None \<Rightarrow> backtrack ts (c # r) g cap)
      else backtrack ts (c # r) g cap)"
  and bt_star_nil: "backtrack (Atom p ZeroOrMore # ts) [] g cap = backtrack ts [] g cap"
  and bt_star_cons: "backtrack (Atom p ZeroOrMore # ts) (c # r) g cap =
     (if p c then
        (case backtrack (Atom p ZeroOrMore # ts) r g (if g then c # cap else cap) of
           Some m \<Rightarrow> Some m
         | None \<Rightarrow> backtrack ts (c # r) g cap)
      else backtrack ts (c # r) g cap)"
  and bt_plus_nil: "backtrack (Atom p OneOrMore # ts) [] g cap = None"
  and bt_plus_cons: "backtrack (Atom p OneOrMore # ts) (c # r) g cap =
     (if p c then backtrack (Atom p ZeroOrMore # ts) r g (if g then c # cap else cap) else None)"
  by simp_all

declare backtrack.simps [simp del]

lemmas bt_rules = bt_nil bt_open bt_close bt_once_nil bt_once_cons bt_opt_nil bt_opt_cons
  bt_star_nil bt_star_cons bt_plus_nil bt_plus_cons

lemma bt_digits_close:
  "backtrack [Atom isDigit ZeroOrMore, GroupClose, Atom (\<lambda>c. c = CHR ''%'') Once] s True cap =
     (case dropWhile isDigit s of
        [] \<Rightarrow> None
      | c # r \<Rightarrow> if c = CHR ''%'' then Some (rev cap @ takeWhile isDigit s) else None)"
proof (induction s arbitrary: cap)
  case Nil
  then show ?case by (simp del: backtrack.simps add: bt_rules)
next
  case (Cons a s)
  show ?case
  proof (cases "isDigit a")
    case True
    then have "a \<noteq> CHR ''%''" using not_digit_chars by auto
    then have fb: "backtrack [GroupClose, Atom (\<lambda>c. c = CHR ''%'') Once] (a # s) True cap = None"
      by (simp del: backtrack.simps add: bt_rules)
    have "backtrack [Atom isDigit ZeroOrMore, GroupClose, Atom (\<lambda>c. c = CHR ''%'') Once]
        (a # s) True cap =
      (case backtrack [Atom isDigit ZeroOrMore, GroupClose, Atom (\<lambda>c. c = CHR ''%'') Once]
         s True (a # cap) of Some m \<Rightarrow> Some m | None \<Rightarrow> None)"
      using True fb by (simp del: backtrack.simps add: bt_star_cons split: option.split)
    also have "\<dots> = backtrack [Atom isDigit ZeroOrMore, GroupClose,
        Atom (\<lambda>c. c = CHR ''%'') Once] s True (a # cap)"
      by (simp split: option.split)
    also have "\<dots> = (case dropWhile isDigit s of
        [] \<Rightarrow> None
      | c # r \<Rightarrow> if c = CHR ''%'' then Some (rev (a # cap) @ takeWhile isDigit s) else None)"
      by (rule Cons.IH)
    also have "\<dots> = (case dropWhile isDigit (a # s) of
        [] \<Rightarrow> None
      | c # r \<Rightarrow> if c = CHR ''%'' then Some (rev cap @ takeWhile isDigit (a # s)) else None)"
      using True by (cases "dropWhile isDigit s") (simp_all del: dropWhile_eq_Nil_conv)
    finally show ?thesis .
  next
    case False
    then show ?thesis by (simp del: backtrack.simps add: bt_rules)
  qed
qed

lemma bt_dot:
  "backtrack [Atom (\<lambda>c. c = CHR ''.'') Optional, Atom isDigit ZeroOrMore, GroupClose,
      Atom (\<lambda>c. c = CHR ''%'') Once] s True cap =
     (case s of
        [] \<Rightarrow> None
      | c # r \<Rightarrow>
          if c = CHR ''.'' then
            (case dropWhile isDigit r of
               [] \<Rightarrow> None
             | c' # r' \<Rightarrow>
                 if c' = CHR ''%'' then Some (rev cap @ CHR ''.'' # takeWhile isDigit r) else None)
          else
            (case dropWhile isDigit s of
               [] \<Rightarrow> None
             | c' # r' \<Rightarrow> if c' = CHR ''%'' then Some (rev cap @ takeWhile isDigit s) else None))"
proof (cases s)
  case Nil
  then show ?thesis by (simp del: backtrack.simps add: bt_rules bt_digits_close)
next
  case (Cons c r)
  show ?thesis
  proof (cases "c = CHR ''.''")
    case True
    have fb: "backtrack [Atom isDigit ZeroOrMore, GroupClose, Atom (\<lambda>c. c = CHR ''%'') Once]
        (CHR ''.'' # r) True cap = None"
      using not_digit_chars by (simp del: backtrack.simps add: bt_digits_close)
    have "backtrack [Atom (\<lambda>c. c = CHR ''.'') Optional, Atom isDigit ZeroOrMore, GroupClose,
        Atom (\<lambda>c. c = CHR ''%'') Once] (CHR ''.'' # r) True cap =
      (case backtrack [Atom isDigit ZeroOrMore, GroupClose, Atom (\<lambda>c. c = CHR ''%'') Once]
         r True (CHR ''.'' # cap) of Some m \<Rightarrow> Some m | None \<Rightarrow> None)"
      using fb by (simp del: backtrack.simps add: bt_opt_cons split: option.split)
    also have "\<dots> = backtrack [Atom isDigit ZeroOrMore, GroupClose,
        Atom (\<lambda>c. c = CHR ''%'') Once] r True (CHR ''.'' # cap)"
      by (simp split: option.split)
    also have "\<dots> = (case dropWhile isDigit r of
               [] \<Rightarrow> None
             | c' # r' \<Rightarrow>
                 if c' = CHR ''%'' then Some (rev cap @ CHR ''.'' # takeWhile isDigit r) else None)"
      by (cases "dropWhile isDigit r")
        (simp_all del: backtrack.simps dropWhile_eq_Nil_conv add: bt_digits_close)
    finally show ?thesis unfolding Cons True by simp
  next
    case False
    then show ?thesis unfolding Cons
      by (simp del: backtrack.simps add: bt_opt_cons bt_digits_close)
  qed
qed

lemma bt_dot_pct:
  "backtrack [Atom (\<lambda>c. c = CHR ''.'') Optional, Atom isDigit ZeroOrMore, GroupClose,
      Atom (\<lambda>c. c = CHR ''%'') Once] (CHR ''%'' # r) True cap = Some (rev cap)"
  using not_digit_chars by (simp del: backtrack.simps add: bt_dot)

lemma bt_digits_then:
  "backtrack [Atom isDigit ZeroOrMore, Atom (\<lambda>c. c = CHR ''.'') Optional,
      Atom isDigit ZeroOrMore, GroupClose, Atom (\<lambda>c. c = CHR ''%'') Once] s True cap =
   backtrack [Atom (\<lambda>c. c = CHR ''.'') Optional, Atom isDigit ZeroOrMore, GroupClose,
      Atom (\<lambda>c. c = CHR ''%'') Once] (dropWhile isDigit s) True (rev (takeWhile isDigit s) @ cap)"
proof (induction s arbitrary: cap)
  case Nil
  then show ?case by (simp del: backtrack.simps add: bt_rules)
next
  case (Cons a s)
  let ?rest = "[Atom (\<lambda>c. c = CHR ''.'') Optional, Atom isDigit ZeroOrMore, GroupClose,
      Atom (\<lambda>c. c = CHR ''%'') Once]"
  show ?case
  proof (cases "isDigit a")
    case False
    then show ?thesis by (simp del: backtrack.simps add: bt_rules)
  next
    case True
    then have ne: "a \<noteq> CHR ''.''" "a \<noteq> CHR ''%''" using not_digit_chars by auto
    let ?greedy = "backtrack ?rest (dropWhile isDigit s) True (rev (takeWhile isDigit s) @ a # cap)"
    have step: "backtrack (Atom isDigit ZeroOrMore # ?rest) (a # s) True cap =
       (case ?greedy of Some m \<Rightarrow> Some m | None \<Rightarrow> backtrack ?rest (a # s) True cap)"
      using True by (simp del: backtrack.simps add: bt_star_cons Cons.IH)
    have fallback: "backtrack ?rest (a # s) True cap = None" if g: "?greedy = None"
    proof -
      have "backtrack ?rest (a # s) True cap =
          (case dropWhile isDigit s of
             [] \<Rightarrow> None
           | c' # r' \<Rightarrow> if c' = CHR ''%'' then Some (rev cap @ takeWhile isDigit (a # s)) else None)"
        using ne True by (simp del: backtrack.simps add: bt_dot)
      moreover have "dropWhile isDigit s \<noteq> CHR ''%'' # r'" for r'
        using g bt_dot_pct[of r' "rev (takeWhile isDigit s) @ a # cap"] by auto
      ultimately show ?thesis by (cases "dropWhile isDigit s") auto
    qed
    show ?thesis
    proof (cases ?greedy)
      case None
      with step fallback True show ?thesis by simp
    next
      case (Some m)
      with step True show ?thesis by simp
    qed
  qed
qed

lemma bt_number:
  "backtrack [GroupOpen, Atom isDigit OneOrMore, Atom (\<lambda>c. c = CHR ''.'') Optional,
      Atom isDigit ZeroOrMore, GroupClose, Atom (\<lambda>c. c = CHR ''%'') Once] s g cap =
     (if takeWhile isDigit s = [] then None
      else
        (case dropWhile isDigit s of
           [] \<Rightarrow> None
         | c # r3 \<Rightarrow>
             if c = CHR ''.'' then
               (case dropWhile isDigit r3 of
                  [] \<Rightarrow> None
                | c' # r' \<Rightarrow>
                    if c' = CHR ''%''
                    then Some (takeWhile isDigit s @ CHR ''.'' # takeWhile isDigit r3)
                    else None)
             else if c = CHR ''%'' then Some (takeWhile isDigit s) else None))"
proof (cases s)
  case Nil
  then show ?thesis by (simp del: backtrack.simps add: bt_open bt_plus_nil)
next
  case (Cons a r)
  show ?thesis
  proof (cases "isDigit a")
    case False
    then show ?thesis unfolding Cons
      by (simp del: backtrack.simps add: bt_open bt_plus_cons)
  next
    case True
    let ?r2 = "dropWhile isDigit r"
    have nd: "\<not> isDigit c" if "?r2 = c # r3" for c r3
      using hd_dropWhile[of isDigit r] that by simp
    have idem: "dropWhile isDigit ?r2 = ?r2" by simp
    have idem': "takeWhile isDigit ?r2 = []"
    proof (cases ?r2)
      case Nil
      then show ?thesis by (simp del: dropWhile_eq_Nil_conv)
    next
      case (Cons c r3)
      with nd[OF Cons] show ?thesis by (simp del: dropWhile_eq_Nil_conv)
    qed
    have "backtrack [GroupOpen, Atom isDigit OneOrMore, Atom (\<lambda>c. c = CHR ''.'') Optional,
      Atom isDigit ZeroOrMore, GroupClose, Atom (\<lambda>c. c = CHR ''%'') Once] (a # r) g cap =
      backtrack [Atom (\<lambda>c. c = CHR ''.'') Optional, Atom isDigit ZeroOrMore, GroupClose,
        Atom (\<lambda>c. c = CHR ''%'') Once] ?r2 True (rev (takeWhile isDigit r) @ [a])"
      using True
      by (simp del: backtrack.simps add: bt_open bt_plus_cons bt_digits_then)
    also have "\<dots> =
        (case ?r2 of
           [] \<Rightarrow> None
         | c # r3 \<Rightarrow>
             if c = CHR ''.'' then
               (case dropWhile isDigit r3 of
                  [] \<Rightarrow> None
                | c' # r' \<Rightarrow>
                    if c' = CHR ''%''
                    then Some ((a # takeWhile isDigit r) @ CHR ''.'' # takeWhile isDigit r3)
                    else None)
             else if c = CHR ''%'' then Some (a # takeWhile isDigit r) else None)"
    proof (cases ?r2)
      case Nil
      then show ?thesis by (simp del: backtrack.simps dropWhile_eq_Nil_conv add: bt_dot)
    next
      case (Cons c r3)
      have i: "dropWhile isDigit (c # r3) = c # r3" "takeWhile isDigit (c # r3) = []"
        using idem idem' unfolding Cons by blast+
      show ?thesis unfolding Cons bt_dot list.case i
        by (cases "dropWhile isDigit r3") (simp_all del: dropWhile_eq_Nil_conv)
    qed
    finally have main: "backtrack [GroupOpen, Atom isDigit OneOrMore,
      Atom (\<lambda>c. c = CHR ''.'') Optional, Atom isDigit ZeroOrMore, GroupClose,
      Atom (\<lambda>c. c = CHR ''%'') Once] (a # r) g cap =
        (case ?r2 of
           [] \<Rightarrow> None
         | c # r3 \<Rightarrow>
             if c = CHR ''.'' then
               (case dropWhile isDigit r3 of
                  [] \<Rightarrow> None
                | c' # r' \<Rightarrow>
                    if c' = CHR ''%''
                    then Some ((a # takeWhile isDigit r) @ CHR ''.'' # takeWhile isDigit r3)
                    else None)
             else if c = CHR ''%'' then Some (a # takeWhile isDigit r) else None)" .
    have tw: "takeWhile isDigit (a # r) = a # takeWhile isDigit r"
      and dw: "dropWhile isDigit (a # r) = dropWhile isDigit r"
      using True by simp_all
    show ?thesis unfolding Cons tw dw main by simp
  qed
qed

lemma bt_number_nondigit:
  "\<not> isDigit a \<Longrightarrow>
   backtrack [GroupOpen, Atom isDigit OneOrMore, Atom (\<lambda>c. c = CHR ''.'') Optional,
      Atom isDigit ZeroOrMore, GroupClose, Atom (\<lambda>c. c = CHR ''%'') Once] (a # r) g cap = None"
  by (simp del: backtrack.simps add: bt_number)

lemma bt_gap:
  "backtrack [Atom (\<lambda>c. \<not> isDigit c) ZeroOrMore, GroupOpen, Atom isDigit OneOrMore,
      Atom (\<lambda>c. c = CHR ''.'') Optional, Atom isDigit ZeroOrMore, GroupClose,
      Atom (\<lambda>c. c = CHR ''%'') Once] s False cap =
   backtrack [GroupOpen, Atom isDigit OneOrMore, Atom (\<lambda>c. c = CHR ''.'') Optional,
      Atom isDigit ZeroOrMore, GroupClose, Atom (\<lambda>c. c = CHR ''%'') Once]
     (dropWhile (\<lambda>c. \<not> isDigit c) s) False cap"
proof (induction s)
  case Nil
  then show ?case by (simp del: backtrack.simps add: bt_star_nil)
next
  case (Cons a s)
  show ?case
  proof (cases "isDigit a")
    case True
    then show ?thesis by (simp del: backtrack.simps add: bt_star_cons)
  next
    case False
    then show ?thesis
      by (simp del: backtrack.simps add: bt_star_cons Cons.IH bt_number_nondigit
          split: option.split)
  qed
qed

lemma bt_label:
  "backtrack (map (\<lambda>l. Atom (\<lambda>c. canonicalize c = canonicalize l) Once) label @ ts) s False cap =
     (if length label \<le> length s \<and>
         map canonicalize (take (length label) s) = map canonicalize label
      then backtrack ts (drop (length label) s) False cap else None)"
proof (induction label arbitrary: s)
  case Nil
  then show ?case by simp
next
  case (Cons l label)
  show ?case
  proof (cases s)
    case Nil
    then show ?thesis by (simp del: backtrack.simps add: bt_once_nil)
  next
    case (Cons c r)
    show ?thesis unfolding Cons
      by (simp del: backtrack.simps add: bt_once_cons Cons.IH)
  qed
qed

lemma bt_percent:
  "backtrack (percentRegex label) s False [] =
     (if length label \<le> length s \<and>
         map canonicalize (take (length label) s) = map canonicalize label
      then backtrack [GroupOpen, Atom isDigit OneOrMore, Atom (\<lambda>c. c = CHR ''.'') Optional,
             Atom isDigit ZeroOrMore, GroupClose, Atom (\<lambda>c. c = CHR ''%'') Once]
             (dropWhile (\<lambda>c. \<not> isDigit c) (drop (length label) s)) False []
      else None)"
  unfolding percentRegex_def bt_label bt_gap ..

lemma takeWhile_run:
  "(\<forall>x\<in>set xs. P x) \<Longrightarrow> \<not> P y \<Longrightarrow> takeWhile P (xs @ y # ys) = xs"
  by (induction xs) auto

lemma dropWhile_run:
  "(\<forall>x\<in>set xs. P x) \<Longrightarrow> \<not> P y \<Longrightarrow> dropWhile P (xs @ y # ys) = y # ys"
  by (induction xs) auto

lemma match_if_labelled:
  assumes "labelledPercent label s num"
  shows "backtrack (percentRegex label) s False [] = Some num"
proof -
  from assms obtain lab gap ip dot fp rest where
    s: "s = lab @ gap @ ip @ dot @ fp @ ''%'' @ rest"
    and lab: "map canonicalize lab = map canonicalize label"
    and gap: "\<forall>c\<in>set gap. \<not> isDigit c"
    and ip: "ip \<noteq> []" "\<forall>c\<in>set ip. isDigit c"
    and dot: "dot = [] \<or> dot = ''.''"
    and fp: "\<forall>c\<in>set fp. isDigit c"
    and num: "num = ip @ dot @ fp"
    unfolding labelledPercent_def by blast
  have len: "length lab = length label" using lab by (metis length_map)
  have pre: "length label \<le> length s" "take (length label) s = lab"
    "drop (length label) s = gap @ ip @ dot @ fp @ ''%'' @ rest"
    using len s by simp_all
  obtain d ip' where ipc: "ip = d # ip'" using ip(1) by (cases ip) auto
  then have d: "isDigit d" using ip(2) by simp
  have r1: "dropWhile (\<lambda>c. \<not> isDigit c) (gap @ ip @ dot @ fp @ ''%'' @ rest) =
      ip @ dot @ fp @ ''%'' @ rest"
    unfolding ipc using dropWhile_run[of gap "\<lambda>c. \<not> isDigit c" d] gap d by simp
  show ?thesis
  proof (cases "dot = []")
    case True
    have all: "\<forall>c\<in>set (ip @ fp). isDigit c" using ip(2) fp by auto
    have tw: "takeWhile isDigit (ip @ dot @ fp @ ''%'' @ rest) = ip @ fp"
      using takeWhile_run[OF all, of "CHR ''%''" rest] True by simp
    have dw: "dropWhile isDigit (ip @ dot @ fp @ ''%'' @ rest) = CHR ''%'' # rest"
      using dropWhile_run[OF all, of "CHR ''%''" rest] True by simp
    show ?thesis
      unfolding bt_percent pre(2,3) r1 bt_number tw dw using pre(1) lab ip(1) num True by simp
  next
    case False
    then have dt: "dot = ''.''" using dot by simp
    have tw: "takeWhile isDigit (ip @ dot @ fp @ ''%'' @ rest) = ip"
      using takeWhile_run[OF ip(2), of "CHR ''.''" "fp @ ''%'' @ rest"] dt by simp
    have dw: "dropWhile isDigit (ip @ dot @ fp @ ''%'' @ rest) = CHR ''.'' # fp @ ''%'' @ rest"
      using dropWhile_run[OF ip(2), of "CHR ''.''" "fp @ ''%'' @ rest"] dt by simp
    have tw2: "takeWhile isDigit (fp @ ''%'' @ rest) = fp"
      using takeWhile_run[OF fp, of "CHR ''%''" rest] by simp
    have dw2: "dropWhile isDigit (fp @ ''%'' @ rest) = CHR ''%'' # rest"
      using dropWhile_run[OF fp, of "CHR ''%''" rest] by simp
    show ?thesis
      unfolding bt_percent pre(2,3) r1 bt_number tw dw list.case if_True tw2 dw2
      using pre(1) lab ip(1) num dt by simp
  qed
qed

lemma labelled_if_match:
  assumes "backtrack (percentRegex label) s False [] = Some num"
  shows "labelledPercent label s num"
proof -
  let ?n = "length label"
  let ?t = "drop ?n s"
  let ?gap = "takeWhile (\<lambda>c. \<not> isDigit c) ?t"
  let ?r1 = "dropWhile (\<lambda>c. \<not> isDigit c) ?t"
  let ?ip = "takeWhile isDigit ?r1"
  let ?r2 = "dropWhile isDigit ?r1"
  have cond: "?n \<le> length s \<and> map canonicalize (take ?n s) = map canonicalize label"
    using assms unfolding bt_percent by (simp split: if_splits)
  then have n: "?n \<le> length s"
    and lab: "map canonicalize (take ?n s) = map canonicalize label" by simp_all
  have E: "(if ?ip = [] then None
      else
        (case ?r2 of
           [] \<Rightarrow> None
         | c # r3 \<Rightarrow>
             if c = CHR ''.'' then
               (case dropWhile isDigit r3 of
                  [] \<Rightarrow> None
                | c' # r' \<Rightarrow>
                    if c' = CHR ''%''
                    then Some (?ip @ CHR ''.'' # takeWhile isDigit r3)
                    else None)
             else if c = CHR ''%'' then Some ?ip else None)) = Some num"
    using assms cond unfolding bt_percent bt_number by simp
  have whole: "take ?n s @ ?gap @ ?ip @ ?r2 = s" by simp
  have gap: "\<forall>c\<in>set ?gap. \<not> isDigit c" by (auto dest: set_takeWhileD)
  have ipd: "\<forall>c\<in>set ?ip. isDigit c" by (auto dest: set_takeWhileD)
  have ip: "?ip \<noteq> []" using E by (rule contrapos_pp) simp
  obtain c r3 where r2: "?r2 = c # r3"
  proof (cases ?r2)
    case Nil
    with E ip show ?thesis by (simp del: dropWhile_eq_Nil_conv takeWhile_eq_Nil_iff)
  next
    case (Cons c r3)
    then show ?thesis by (rule that)
  qed
  have E2: "(if c = CHR ''.'' then
               (case dropWhile isDigit r3 of
                  [] \<Rightarrow> None
                | c' # r' \<Rightarrow>
                    if c' = CHR ''%''
                    then Some (?ip @ CHR ''.'' # takeWhile isDigit r3)
                    else None)
             else if c = CHR ''%'' then Some ?ip else None) = Some num"
    using E ip unfolding r2 by (simp del: dropWhile_eq_Nil_conv takeWhile_eq_Nil_iff)
  show ?thesis
  proof (cases "c = CHR ''.''")
    case True
    let ?fp = "takeWhile isDigit r3"
    from E2 True have E3: "(case dropWhile isDigit r3 of
                  [] \<Rightarrow> None
                | c' # r' \<Rightarrow>
                    if c' = CHR ''%''
                    then Some (?ip @ CHR ''.'' # takeWhile isDigit r3)
                    else None) = Some num" by simp
    obtain c' r' where r3: "dropWhile isDigit r3 = c' # r'"
    proof (cases "dropWhile isDigit r3")
      case Nil
      with E3 show ?thesis by (simp del: dropWhile_eq_Nil_conv)
    next
      case (Cons c' r')
      then show ?thesis by (rule that)
    qed
    from E3 have E4: "(if c' = CHR ''%'' then Some (?ip @ CHR ''.'' # ?fp) else None) = Some num"
      unfolding r3 by simp
    then have pc: "c' = CHR ''%''" by (rule contrapos_pp) simp
    with E4 have nv: "num = ?ip @ ''.'' @ ?fp" by simp
    have tail: "?fp @ CHR ''%'' # r' = r3"
      using takeWhile_dropWhile_id[of isDigit r3] unfolding r3 pc .
    have "take ?n s @ ?gap @ ?ip @ ''.'' @ ?fp @ ''%'' @ r' = take ?n s @ ?gap @ ?ip @ c # r3"
      using tail True by simp
    also have "\<dots> = s" using whole unfolding r2 .
    finally have dec: "s = take ?n s @ ?gap @ ?ip @ ''.'' @ ?fp @ ''%'' @ r'" by (rule sym)
    have fpd: "\<forall>c\<in>set ?fp. isDigit c" by (auto dest: set_takeWhileD)
    have dt: "''.'' = [] \<or> ''.'' = ''.''" by simp
    show ?thesis
      unfolding labelledPercent_def
      by (intro exI[of _ "take ?n s"] exI[of _ ?gap] exI[of _ ?ip] exI[of _ "''.''"]
          exI[of _ ?fp] exI[of _ r'] conjI dec lab gap ip ipd dt fpd nv)
  next
    case False
    with E2 have E3: "(if c = CHR ''%'' then Some ?ip else None) = Some num" by simp
    then have pc: "c = CHR ''%''" by (rule contrapos_pp) simp
    with E3 have nv: "num = ?ip @ [] @ []" by simp
    have "take ?n s @ ?gap @ ?ip @ [] @ [] @ ''%'' @ r3 = take ?n s @ ?gap @ ?ip @ c # r3"
      using pc by simp
    also have "\<dots> = s" using whole unfolding r2 .
    finally have dec: "s = take ?n s @ ?gap @ ?ip @ [] @ [] @ ''%'' @ r3" by (rule sym)
    have fpd: "\<forall>c\<in>set []. isDigit c" by simp
    have dt: "[] = [] \<or> [] = ''.''" by simp
    show ?thesis
      unfolding labelledPercent_def
      by (intro exI[of _ "take ?n s"] exI[of _ ?gap] exI[of _ ?ip] exI[of _ "[]"]
          exI[of _ "[]"] exI[of _ r3] conjI dec lab gap ip ipd dt fpd nv)
  qed
qed

lemma match_iff:
  "backtrack (percentRegex label) s False [] = Some num \<longleftrightarrow> labelledPercent label s num"
  using match_if_labelled labelled_if_match by blast

lemma regexMatch_first:
  "i \<le> length s \<Longrightarrow> backtrack ts (drop i s) False [] = Some m \<Longrightarrow>
   \<forall>j<i. backtrack ts (drop j s) False [] = None \<Longrightarrow> regexMatch ts s = Some m"
proof (induction s arbitrary: i)
  case Nil
  then show ?case by simp
next
  case (Cons c r)
  show ?case
  proof (cases i)
    case 0
    with Cons.prems show ?thesis by simp
  next
    case (Suc k)
    with Cons.prems have "backtrack ts (c # r) False [] = None" by auto
    moreover have "regexMatch ts r = Some m"
    proof (rule Cons.IH[of k])
      show "k \<le> length r" using Cons.prems(1) Suc by simp
      show "backtrack ts (drop k r) False [] = Some m" using Cons.prems(2) Suc by simp
      show "\<forall>j<k. backtrack ts (drop j r) False [] = None"
      proof (intro allI impI)
        fix j assume "j < k"
        then have "Suc j < i" using Suc by simp
        with Cons.prems(3) have "backtrack ts (drop (Suc j) (c # r)) False [] = None" by blast
        then show "backtrack ts (drop j r) False [] = None" by simp
      qed
    qed
    ultimately show ?thesis by simp
  qed
qed

lemma regexMatch_none:
  "\<forall>i\<le>length s. backtrack ts (drop i s) False [] = None \<Longrightarrow> regexMatch ts s = None"
proof (induction s)
  case Nil
  then show ?case by simp
next
  case (Cons c r)
  from Cons.prems have "backtrack ts (drop 0 (c # r)) False [] = None" by blast
  then have h: "backtrack ts (c # r) False [] = None" by simp
  have "\<forall>i\<le>length r. backtrack ts (drop i r) False [] = None"
  proof (intro allI impI)
    fix i assume "i \<le> length r"
    then have "Suc i \<le> length (c # r)" by simp
    with Cons.prems have "backtrack ts (drop (Suc i) (c # r)) False [] = None" by blast
    then show "backtrack ts (drop i r) False [] = None" by simp
  qed
  with Cons.IH h show ?case by simp
qed

lemma parseFloat_nonneg: "0 \<le> parseFloat m"
  by (simp add: parseFloat_def Let_def)

lemma parseFloat_digits:
  assumes "\<forall>c\<in>set ip. isDigit c"
  shows "parseFloat ip = of_nat (digitsValue ip)"
proof -
  have tw: "takeWhile isDigit ip = ip" and dw: "dropWhile isDigit ip = []"
    using assms by simp_all
  show ?thesis unfolding parseFloat_def Let_def tw dw by (simp add: digitsValue_def)
qed

lemma parseFloat_decimal:
  assumes "\<forall>c\<in>set ip. isDigit c" and "\<forall>c\<in>set fp. isDigit c"
  shows "parseFloat (ip @ ''.'' @ fp) =
     of_nat (digitsValue ip) + of_nat (digitsValue fp) / 10 ^ length fp"
proof -
  have tw: "takeWhile isDigit (ip @ ''.'' @ fp) = ip"
    and dw: "dropWhile isDigit (ip @ ''.'' @ fp) = CHR ''.'' # fp"
    using takeWhile_run[OF assms(1), of "CHR ''.''" fp] dropWhile_run[OF assms(1), of "CHR ''.''" fp]
    by simp_all
  have tf: "takeWhile isDigit fp = fp" using assms(2) by simp
  show ?thesis unfolding parseFloat_def Let_def tw dw list.case if_True tf by simp
qed

lemma first_labelled:
  assumes "i \<le> length s" and "labelledPercent label (drop i s) num"
    and "\<forall>j<i. \<forall>n. \<not> labelledPercent label (drop j s) n"
  shows "regexMatch (percentRegex label) s = Some num"
proof (rule regexMatch_first[OF assms(1)])
  show "backtrack (percentRegex label) (drop i s) False [] = Some num"
    using assms(2) by (simp add: match_iff)
  show "\<forall>j<i. backtrack (percentRegex label) (drop j s) False [] = None"
  proof (intro allI impI)
    fix j assume "j < i"
    with assms(3) have "\<forall>n. backtrack (percentRegex label) (drop j s) False [] \<noteq> Some n"
      by (simp add: match_iff)
    then show "backtrack (percentRegex label) (drop j s) False [] = None" by auto
  qed
qed

lemma none_labelled:
  assumes "\<forall>j\<le>length s. \<forall>n. \<not> labelledPercent label (drop j s) n"
  shows "regexMatch (percentRegex label) s = None"
proof (rule regexMatch_none, intro allI impI)
  fix j assume "j \<le> length s"
  with assms have "\<forall>n. backtrack (percentRegex label) (drop j s) False [] \<noteq> Some n"
    by (simp add: match_iff)
  then show "backtrack (percentRegex label) (drop j s) False [] = None" by auto
qed

lemma scores_nonneg: "0 \<le> fst (parseScores s) \<and> 0 \<le> snd (parseScores s)"
  by (simp add: parseScores_def Let_def parseFloat_nonneg split: option.split)

lemma spec_example_scores:
  "parseScores ''AI Generated: 82.5% | Real Voice: 17.5%'' = (165 / 2, 35 / 2)"
  by (simp add: parseScores_def percentRegex_def isDigit_def canonicalize_def parseFloat_def
      digitsValue_def digitValue_def backtrack.simps)

text \<open>
  Claim C5. For every text and for both labels: if position \<open>i\<close> is the first position at
  which the text matches \<open>label<non-digit>*<number>%\<close>, the label compared without regard
  to letter case, the percentage is the value of the number matched there; if the text matches
  at no position, the percentage is 0. The value of a run of digits is its decimal value, and
  the value of digits, a dot and digits is the integer part plus the fraction. The parser is a
  total function whose two results are never negative, and on the text of the specification's
  example it yields 82.5 and 17.5.
\<close>

theorem score_parser_reads_first_match:
  "(i \<le> length s \<and> labelledPercent ''AI Generated'' (drop i s) num \<and>
    (\<forall>j<i. \<forall>n. \<not> labelledPercent ''AI Generated'' (drop j s) n) \<longrightarrow>
      fst (parseScores s) = parseFloat num) \<and>
   ((\<forall>j\<le>length s. \<forall>n. \<not> labelledPercent ''AI Generated'' (drop j s) n) \<longrightarrow>
      fst (parseScores s) = 0) \<and>
   (i' \<le> length s \<and> labelledPercent ''Real Voice'' (drop i' s) num' \<and>
    (\<forall>j<i'. \<forall>n. \<not> labelledPercent ''Real Voice'' (drop j s) n) \<longrightarrow>
      snd (parseScores s) = parseFloat num') \<and>
   ((\<forall>j\<le>length s. \<forall>n. \<not> labelledPercent ''Real Voice'' (drop j s) n) \<longrightarrow>
      snd (parseScores s) = 0) \<and>
   ((\<forall>c\<in>set ip. isDigit c) \<and> (\<forall>c\<in>set fp. isDigit c) \<longrightarrow>
      parseFloat ip = of_nat (digitsValue ip) \<and>
      parseFloat (ip @ ''.'' @ fp) =
        of_nat (digitsValue ip) + of_nat (digitsValue fp) / 10 ^ length fp) \<and>
   0 \<le> fst (parseScores s) \<and> 0 \<le> snd (parseScores s) \<and>
   parseScores ''AI Generated: 82.5% | Real Voice: 17.5%'' = (165 / 2, 35 / 2)"
proof -
  have a: "fst (parseScores s) = parseFloat num"
    if "i \<le> length s" "labelledPercent ''AI Generated'' (drop i s) num"
      "\<forall>j<i. \<forall>n. \<not> labelledPercent ''AI Generated'' (drop j s) n"
    using first_labelled[OF that] by (simp add: parseScores_def Let_def)
  have b: "fst (parseScores s) = 0"
    if "\<forall>j\<le>length s. \<forall>n. \<not> labelledPercent ''AI Generated'' (drop j s) n"
    using none_labelled[OF that] by (simp add: parseScores_def Let_def)
  have c: "snd (parseScores s) = parseFloat num'"
    if "i' \<le> length s" "labelledPercent ''Real Voice'' (drop i' s) num'"
      "\<forall>j<i'. \<forall>n. \<not> labelledPercent ''Real Voice'' (drop j s) n"
    using first_labelled[OF that] by (simp add: parseScores_def Let_def)
  have d: "snd (parseScores s) = 0"
    if "\<forall>j\<le>length s. \<forall>n. \<not> labelledPercent ''Real Voice'' (drop j s) n"
    using none_labelled[OF that] by (simp add: parseScores_def Let_def)
  show ?thesis
    using a b c d parseFloat_digits[of ip] parseFloat_decimal[of ip fp] scores_nonneg[of s]
      spec_example_scores
    by blast
qed

lemmas regex_eval = percentRegex_def backtrack.simps isDigit_def canonicalize_def

theorem score_parser_reads_first_match_witness:
  "1 \<le> length ''xAI generated 5%'' \<and>
   labelledPercent ''AI Generated'' (drop 1 ''xAI generated 5%'') ''5'' \<and>
   fst (parseScores ''xAI generated 5%'') = 5 \<and>
   labelledPercent ''Real Voice'' (drop 0 ''real voice 17.5%'') ''17.5'' \<and>
   snd (parseScores ''real voice 17.5%'') = 35 / 2 \<and>
   fst (parseScores ''x'') = 0 \<and> snd (parseScores ''x'') = 0 \<and>
   parseFloat ''82.5'' = 165 / 2"
proof -
  have a1: "labelledPercent ''AI Generated'' (drop 1 ''xAI generated 5%'') ''5''"
    by (rule labelled_if_match) (simp add: regex_eval)
  have "backtrack (percentRegex ''AI Generated'') ''xAI generated 5%'' False [] = None"
    by (simp add: regex_eval)
  then have "\<forall>n. \<not> labelledPercent ''AI Generated'' (drop 0 ''xAI generated 5%'') n"
    by (simp add: match_iff[symmetric])
  then have a2: "\<forall>j<1. \<forall>n. \<not> labelledPercent ''AI Generated'' (drop j ''xAI generated 5%'') n"
    by simp
  have r1: "labelledPercent ''Real Voice'' (drop 0 ''real voice 17.5%'') ''17.5''"
    by (rule labelled_if_match) (simp add: regex_eval)
  have r2: "\<forall>j<0. \<forall>n. \<not> labelledPercent ''Real Voice'' (drop j ''real voice 17.5%'') n"
    by simp
  have none: "\<forall>j\<le>length ''x''. \<forall>n. \<not> labelledPercent label (drop j ''x'') n"
    if "backtrack (percentRegex label) ''x'' False [] = None"
      "backtrack (percentRegex label) [] False [] = None" for label
  proof (intro allI impI)
    fix j n assume "j \<le> length ''x''"
    then have "j = 0 \<or> j = 1" by auto
    then show "\<not> labelledPercent label (drop j ''x'') n"
      using that by (auto simp add: match_iff[symmetric])
  qed
  have n1: "\<forall>j\<le>length ''x''. \<forall>n. \<not> labelledPercent ''AI Generated'' (drop j ''x'') n"
    by (rule none) (simp_all add: regex_eval)
  have n2: "\<forall>j\<le>length ''x''. \<forall>n. \<not> labelledPercent ''Real Voice'' (drop j ''x'') n"
    by (rule none) (simp_all add: regex_eval)
  have d: "\<forall>c\<in>set ''82''. isDigit c" "\<forall>c\<in>set ''5''. isDigit c"
    by (simp_all add: isDigit_def)
  have v: "parseFloat ''5'' = 5" "parseFloat ''17.5'' = 35 / 2"
    by (simp_all add: parseFloat_def isDigit_def digitsValue_def digitValue_def)
  have w1: "fst (parseScores ''xAI generated 5%'') = parseFloat ''5''"
    using score_parser_reads_first_match[of 1 "''xAI generated 5%''" "''5''" 0 "''''" "''82''" "''5''"]
      a1 a2 by simp
  have w2: "snd (parseScores ''real voice 17.5%'') = parseFloat ''17.5''"
    using score_parser_reads_first_match[of 0 "''real voice 17.5%''" "''''" 0 "''17.5''"
        "''82''" "''5''"] r1 r2 by simp
  have w3: "fst (parseScores ''x'') = 0 \<and> snd (parseScores ''x'') = 0"
    using score_parser_reads_first_match[of 0 "''x''" "''''" 0 "''''" "''82''" "''5''"] n1 n2
    by blast
  have w4: "parseFloat (''82'' @ ''.'' @ ''5'') =
      of_nat (digitsValue ''82'') + of_nat (digitsValue ''5'') / 10 ^ length ''5''"
    using score_parser_reads_first_match[of 0 "''x''" "''''" 0 "''''" "''82''" "''5''"] d
    by blast
  have w4': "parseFloat ''82.5'' = 165 / 2"
    using w4 by (simp add: digitsValue_def digitValue_def)
  show ?thesis using a1 r1 w1 w2 w3 w4' v by simp
qed

end
